theory Spec2Isabelle
  imports Main "HOL-Library.Word" "HOL-Library.List_Lexorder"
begin

section \<open>JavaScript values\<close>

text \<open>
  A JavaScript string is a sequence of UTF-16 code units: \<open>charCodeAt\<close> reads one, the
  regular expression \<open>/\s+/g\<close> (no \<open>u\<close> flag) and \<open>trim\<close> work on them, and IndexedDB
  orders string keys by them, lexicographically. \<open>js\<close> writes an ASCII literal.
\<close>

type_synonym code_unit = "16 word"
type_synonym js_string = "code_unit list"

definition js :: "string \<Rightarrow> js_string" where
  "js s = map of_char s"

text \<open>A thrown value or the \<open>error\<close> of a failed IndexedDB request, by its name.\<close>

datatype js_error = DOMException string

text \<open>How the promise returned by an \<open>async\<close> method settles, as its caller sees it.\<close>

datatype 'a promise = Resolved 'a | Rejected js_error

datatype js_value = JsString js_string | JsNumber int

section \<open>Configuration constants\<close>

text \<open>
  \<open>CONFIG\<close> is a constant object of the script. The cache methods read two of its fields;
  they take the configuration as an argument here, and \<open>CONFIG\<close> is the script's value.
\<close>

record config =
  CACHE_EXPIRY_MS :: int
  MAX_CACHE_SIZE :: nat

definition CONFIG :: config where
  "CONFIG = \<lparr>CACHE_EXPIRY_MS = 7 * 24 * 60 * 60 * 1000, MAX_CACHE_SIZE = 5000\<rparr>"

section \<open>Key derivation: \<open>generateKey\<close>\<close>

text \<open>
  \<open>hash << 5\<close> and \<open>hash & hash\<close> convert their operand with ToInt32: the value modulo
  \<open>2^32\<close>, read as a signed 32-bit integer. The subtraction and the addition between them
  are exact (the operands are below \<open>2^32\<close> in size, far inside the range where a double
  holds every integer).
\<close>

definition toInt32 :: "int \<Rightarrow> int" where
  "toInt32 x = (x + 2 ^ 31) mod 2 ^ 32 - 2 ^ 31"

text \<open>The \<open>for\<close> loop over the code units of \<open>url\<close>, with \<open>hash\<close> as the accumulator.\<close>

fun hashLoop :: "int \<Rightarrow> js_string \<Rightarrow> int" where
  "hashLoop hash [] = hash"
| "hashLoop hash (char # rest) =
     hashLoop (toInt32 ((toInt32 (hash * 2 ^ 5) - hash) + uint char)) rest"

text \<open>
  Number-to-string conversion of an integer (below \<open>10^21\<close> in size JavaScript prints
  an integer in plain decimal notation), as the template literal and \<open>String(...)\<close> do it.
\<close>

definition digitChar :: "nat \<Rightarrow> code_unit" where
  "digitChar d = of_nat (48 + d)"

fun digits :: "nat \<Rightarrow> js_string" where
  "digits n = (if n < 10 then [digitChar n] else digits (n div 10) @ [digitChar (n mod 10)])"

declare digits.simps [simp del]

definition numberToString :: "int \<Rightarrow> js_string" where
  "numberToString i = (if i < 0 then js ''-'' @ digits (nat (- i)) else digits (nat i))"

definition generateKey :: "js_string \<Rightarrow> js_string" where
  "generateKey url = js ''litd_'' @ numberToString \<bar>hashLoop 0 url\<bar>"

section \<open>Response compression: \<open>parseTagData\<close>\<close>

text \<open>
  The characters matched by \<open>\s\<close> and stripped by \<open>trim\<close>: WhiteSpace and LineTerminator
  of ECMAScript (tab, line feed, vertical tab, form feed, carriage return, space,
  no-break space, the Unicode space separators, line and paragraph separator, and the
  byte order mark).
\<close>

definition isWhiteSpace :: "code_unit \<Rightarrow> bool" where
  "isWhiteSpace c =
     (c \<in> {0x9, 0xA, 0xB, 0xC, 0xD, 0x20, 0xA0, 0x1680, 0x2028, 0x2029, 0x202F, 0x205F,
            0x3000, 0xFEFF}
      \<or> (0x2000 \<le> c \<and> c \<le> 0x200A))"

text \<open>\<open>text.replace(/\s+/g, '_')\<close>: every maximal run of white space becomes one underscore.\<close>

function replaceWhitespace :: "js_string \<Rightarrow> js_string" where
  "replaceWhitespace [] = []"
| "replaceWhitespace (c # cs) =
     (if isWhiteSpace c then 0x5F # replaceWhitespace (dropWhile isWhiteSpace cs)
      else c # replaceWhitespace cs)"
  by pat_completeness auto
termination
  by (relation "measure length") (auto simp: less_Suc_eq_le length_dropWhile_le)

definition trim :: "js_string \<Rightarrow> js_string" where
  "trim s = rev (dropWhile isWhiteSpace (rev (dropWhile isWhiteSpace s)))"

text \<open>
  One element of \<open>doc.querySelectorAll("tbody tr")\<close>, as \<open>parseTagData\<close> reads it:
  \<open>link\<close> is the \<open>textContent\<close> of the element that
  \<open>row.querySelector("a.text-sky-600.hover\\:text-sky-500.mr-4")\<close> returns and
  \<open>cell\<close> that of \<open>row.querySelector("td.text-gray-400.text-right")\<close>; \<open>None\<close> is
  the \<open>null\<close> of a selector that matches nothing.
\<close>

record row =
  link :: "js_string option"
  cell :: "js_string option"

record tag =
  name :: js_string
  confidence :: js_string

text \<open>The local calendar fields that the \<open>Date\<close> getters of \<open>formatTimestamp\<close> return.\<close>

record date_parts =
  getDate :: nat
  getMonth :: nat
  getFullYear :: int
  getHours :: nat
  getMinutes :: nat

text \<open>
  The browser interfaces the cache calls, taken as parameters: the HTML parser with the
  selector engine (\<open>DOMParser.parseFromString\<close> followed by \<open>querySelectorAll\<close>; \<open>Inl\<close> is
  an exception thrown there), the byte size of the \<open>Blob\<close> made of \<open>JSON.stringify\<close> of a
  tag list, and the local time zone of \<open>Date\<close>.
\<close>

record browser =
  tbodyRows :: "js_string \<Rightarrow> js_error + row list"
  jsonBlobSize :: "tag list \<Rightarrow> nat"
  localTime :: "int \<Rightarrow> date_parts"

text \<open>The callback of \<open>rows.map\<close>; \<open>None\<close> is its \<open>null\<close>.\<close>

definition rowToTag :: "row \<Rightarrow> tag option" where
  "rowToTag r =
     (case link r of
        None \<Rightarrow> None
      | Some linkText \<Rightarrow>
          (case cell r of
             None \<Rightarrow> None
           | Some cellText \<Rightarrow>
               Some \<lparr>name = trim (replaceWhitespace linkText), confidence = trim cellText\<rparr>))"

text \<open>\<open>.filter(Boolean)\<close> drops the \<open>null\<close>s; an object is always truthy.\<close>

fun filterBoolean :: "'a option list \<Rightarrow> 'a list" where
  "filterBoolean [] = []"
| "filterBoolean (None # xs) = filterBoolean xs"
| "filterBoolean (Some x # xs) = x # filterBoolean xs"

text \<open>The \<open>try\<close> block with its \<open>catch\<close>, which returns the empty array.\<close>

definition parseTagData :: "browser \<Rightarrow> js_string \<Rightarrow> tag list" where
  "parseTagData br htmlString =
     (case tbodyRows br htmlString of
        Inl error \<Rightarrow> []
      | Inr rows \<Rightarrow> filterBoolean (map rowToTag rows))"

definition calculateSize :: "browser \<Rightarrow> tag list \<Rightarrow> nat" where
  "calculateSize br data = jsonBlobSize br data"

text \<open>\<open>String(n).padStart(2, '0')\<close>.\<close>

definition padStart2 :: "js_string \<Rightarrow> js_string" where
  "padStart2 s = replicate (2 - length s) 0x30 @ s"

definition formatTimestamp :: "browser \<Rightarrow> int \<Rightarrow> js_string" where
  "formatTimestamp br ts =
     (let date = localTime br ts;
          day = padStart2 (numberToString (int (getDate date)));
          month = padStart2 (numberToString (int (getMonth date) + 1));
          year = numberToString (getFullYear date);
          hours = padStart2 (numberToString (int (getHours date)));
          minutes = padStart2 (numberToString (int (getMinutes date)))
      in day @ js ''.'' @ month @ js ''.'' @ year @ js '' '' @ hours @ js '':'' @ minutes)"

section \<open>The object store\<close>

text \<open>
  One record of the object store \<open>tagCache\<close>, as \<open>set\<close> builds it. \<open>size'\<close> is the field
  \<open>size\<close>.
\<close>

record cache_record =
  key :: js_string
  tags :: "tag list"
  timestamp :: int
  timestampFormatted :: js_string
  size' :: nat

text \<open>
  The object store has the key path \<open>key\<close>: it holds at most one record for a key and a
  cursor walks it in key order. The contents are the list of records in that order.
  \<open>store_get\<close>, \<open>store_put\<close>, \<open>store_delete\<close> and \<open>store_clear\<close> are the requests of
  IndexedDB of the same names; \<open>index_timestamp\<close> is what a cursor over the index
  \<open>timestamp\<close> yields in direction \<open>next\<close>: ascending time stamps, records of equal time
  stamp in key order.
\<close>

type_synonym store = "cache_record list"

definition store_get :: "js_string \<Rightarrow> store \<Rightarrow> cache_record option" where
  "store_get k s = find (\<lambda>r. key r = k) s"

fun store_put :: "cache_record \<Rightarrow> store \<Rightarrow> store" where
  "store_put r [] = [r]"
| "store_put r (x # xs) =
     (if key r = key x then r # xs
      else if key r < key x then r # x # xs
      else x # store_put r xs)"

definition store_delete :: "js_string \<Rightarrow> store \<Rightarrow> store" where
  "store_delete k s = filter (\<lambda>r. key r \<noteq> k) s"

definition store_clear :: "store \<Rightarrow> store" where
  "store_clear s = []"

definition index_timestamp :: "store \<Rightarrow> cache_record list" where
  "index_timestamp s = sort_key timestamp s"

section \<open>The cache manager: \<open>IndexedDBCache\<close>\<close>

text \<open>
  The state of the cache object: after \<open>initialize\<close> either \<open>initPromise\<close> is resolved,
  \<open>this.db\<close> is the open database and the store has some contents, or \<open>initPromise\<close> is
  rejected with the error of the open request.
\<close>

datatype cache = Db store | InitRejected js_error

text \<open>
  What the database does during one call of a method: everything succeeds, or
  \<open>this.db.transaction(...)\<close> throws inside the executor of the promise, or the request
  of the method fires \<open>onerror\<close>.
\<close>

datatype backend = Healthy | TransactionThrows js_error | RequestFails js_error

text \<open>
  A call that a method starts and does not await: \<open>this.delete(key)\<close> in \<open>get\<close> and
  \<open>this.cleanupOldEntries()\<close> in the \<open>oncomplete\<close> handler of \<open>set\<close>. The method returns
  the calls it has started; \<open>runTask\<close> carries one out.
\<close>

datatype task = DeleteTask js_string | CleanupTask

text \<open>
  \<open>get\<close>. \<open>now\<close> is the value of \<open>Date.now()\<close> in \<open>onsuccess\<close>. A rejected \<open>initPromise\<close>
  is thrown by \<open>await\<close> and caught; the promise made by \<open>new Promise\<close> is returned without
  \<open>await\<close>, so a rejection of that promise is the rejection of \<open>get\<close>.
\<close>

definition get ::
  "config \<Rightarrow> int \<Rightarrow> backend \<Rightarrow> js_string \<Rightarrow> cache \<Rightarrow> tag list option promise \<times> task list" where
  "get cfg now b k c =
     (case c of
        InitRejected error \<Rightarrow> (Resolved None, [])
      | Db s \<Rightarrow>
          (case b of
             TransactionThrows error \<Rightarrow> (Rejected error, [])
           | RequestFails error \<Rightarrow> (Resolved None, [])
           | Healthy \<Rightarrow>
               (case store_get k s of
                  None \<Rightarrow> (Resolved None, [])
                | Some result \<Rightarrow>
                    if now - timestamp result > CACHE_EXPIRY_MS cfg
                    then (Resolved None, [DeleteTask k])
                    else (Resolved (Some (tags result)), []))))"

text \<open>
  \<open>set\<close>. \<open>now\<close> is the value of \<open>Date.now()\<close> in the executor. The tags are extracted
  after \<open>await this.initPromise\<close>. \<open>request.onerror\<close> calls \<open>reject(request.error)\<close>, and
  as in \<open>get\<close> the promise is returned without \<open>await\<close>, outside the reach of the \<open>catch\<close>.
  A failed request aborts its transaction, so \<open>oncomplete\<close> does not fire and no sweep is
  started.
\<close>

definition set' ::
  "config \<Rightarrow> browser \<Rightarrow> int \<Rightarrow> backend \<Rightarrow> js_string \<Rightarrow> js_string \<Rightarrow> cache
     \<Rightarrow> unit promise \<times> cache \<times> task list" where
  "set' cfg br now b k htmlResponse c =
     (case c of
        InitRejected error \<Rightarrow> (Resolved (), c, [])
      | Db s \<Rightarrow>
          (let tgs = parseTagData br htmlResponse in
           if length tgs = 0 then (Resolved (), c, [])
           else
             (case b of
                TransactionThrows error \<Rightarrow> (Rejected error, c, [])
              | RequestFails error \<Rightarrow> (Rejected error, c, [])
              | Healthy \<Rightarrow>
                  (let entry = \<lparr>key = k, tags = tgs, timestamp = now,
                                timestampFormatted = formatTimestamp br now,
                                size' = calculateSize br tgs\<rparr>
                   in (Resolved (), Db (store_put entry s), [CleanupTask])))))"

definition delete :: "backend \<Rightarrow> js_string \<Rightarrow> cache \<Rightarrow> unit promise \<times> cache" where
  "delete b k c =
     (case c of
        InitRejected error \<Rightarrow> (Resolved (), c)
      | Db s \<Rightarrow>
          (case b of
             TransactionThrows error \<Rightarrow> (Rejected error, c)
           | RequestFails error \<Rightarrow> (Resolved (), c)
           | Healthy \<Rightarrow> (Resolved (), Db (store_delete k s))))"

text \<open>
  The \<open>forEach\<close> over \<open>allEntries\<close> that fills \<open>toDelete\<close>. \<open>clock index\<close> is the value of
  \<open>Date.now()\<close> in the callback for the record at \<open>index\<close>.
\<close>

fun markEntries :: "config \<Rightarrow> (nat \<Rightarrow> int) \<Rightarrow> nat \<Rightarrow> nat \<Rightarrow> cache_record list \<Rightarrow> js_string list" where
  "markEntries cfg clock totalCount index [] = []"
| "markEntries cfg clock totalCount index (entry # rest) =
     (if clock index - timestamp entry > CACHE_EXPIRY_MS cfg then [key entry]
      else if totalCount > MAX_CACHE_SIZE cfg
              \<and> int index < int totalCount - int (MAX_CACHE_SIZE cfg) then [key entry]
      else [])
     @ markEntries cfg clock totalCount (Suc index) rest"

definition toDelete :: "config \<Rightarrow> (nat \<Rightarrow> int) \<Rightarrow> store \<Rightarrow> js_string list" where
  "toDelete cfg clock s =
     (let allEntries = index_timestamp s;
          totalCount = length allEntries
      in markEntries cfg clock totalCount 0 allEntries)"

definition cleanupOldEntries ::
  "config \<Rightarrow> (nat \<Rightarrow> int) \<Rightarrow> backend \<Rightarrow> cache \<Rightarrow> unit promise \<times> cache" where
  "cleanupOldEntries cfg clock b c =
     (case c of
        InitRejected error \<Rightarrow> (Resolved (), c)
      | Db s \<Rightarrow>
          (case b of
             TransactionThrows error \<Rightarrow> (Rejected error, c)
           | RequestFails error \<Rightarrow> (Resolved (), c)
           | Healthy \<Rightarrow>
               (let marked = toDelete cfg clock s
                in (Resolved (),
                    Db (if length marked > 0 then fold store_delete marked s else s)))))"

text \<open>
  The cursor loop of \<open>getStats\<close> with its three variables. \<open>record.size || 0\<close> is the
  size of the record: every record has the number that \<open>set\<close> stored, and \<open>0 || 0\<close> is \<open>0\<close>.
\<close>

fun statsCursor :: "nat \<Rightarrow> nat \<Rightarrow> int \<Rightarrow> cache_record list \<Rightarrow> nat \<times> nat \<times> int" where
  "statsCursor totalEntries totalSize oldestEntry [] = (totalEntries, totalSize, oldestEntry)"
| "statsCursor totalEntries totalSize oldestEntry (entry # rest) =
     statsCursor (totalEntries + 1) (totalSize + size' entry)
       (min oldestEntry (timestamp entry)) rest"

text \<open>
  \<open>(p / q).toFixed(2)\<close> for a quotient of naturals: the integer \<open>n\<close> with \<open>n / 100\<close> nearest
  to the quotient, the larger one of two, printed with two decimals. The quotient of
  \<open>getStats\<close> has the divisor \<open>1024\<close>, a power of two, so for a sum of sizes below \<open>2^53\<close>
  the double that \<open>toFixed\<close> receives is the exact quotient.
\<close>

definition toFixed2 :: "nat \<Rightarrow> nat \<Rightarrow> js_string" where
  "toFixed2 p q =
     (let n = (200 * p + q) div (2 * q)
      in digits (n div 100) @ js ''.'' @ [digitChar (n mod 100 div 10), digitChar (n mod 10)])"

record stats =
  entries :: nat
  totalSizeKB :: js_value
  oldestEntryAge :: int

text \<open>
  \<open>getStats\<close>. \<open>now0\<close> is the value of \<open>Date.now()\<close> that initialises \<open>oldestEntry\<close> and
  \<open>now1\<close> the one read when the cursor is exhausted. \<open>Math.floor\<close> of the quotient by the
  milliseconds of a day is the integer division, which rounds down. The error paths
  resolve to an object whose \<open>totalSizeKB\<close> is the number \<open>0\<close>; the success path gives the
  string of \<open>toFixed\<close>.
\<close>

definition getStats :: "int \<Rightarrow> int \<Rightarrow> backend \<Rightarrow> cache \<Rightarrow> stats promise" where
  "getStats now0 now1 b c =
     (case c of
        InitRejected error \<Rightarrow>
          Resolved \<lparr>entries = 0, totalSizeKB = JsNumber 0, oldestEntryAge = 0\<rparr>
      | Db s \<Rightarrow>
          (case b of
             TransactionThrows error \<Rightarrow> Rejected error
           | RequestFails error \<Rightarrow>
               Resolved \<lparr>entries = 0, totalSizeKB = JsNumber 0, oldestEntryAge = 0\<rparr>
           | Healthy \<Rightarrow>
               (case statsCursor 0 0 now0 s of
                  (totalEntries, totalSize, oldestEntry) \<Rightarrow>
                    Resolved \<lparr>entries = totalEntries,
                              totalSizeKB = JsString (toFixed2 totalSize 1024),
                              oldestEntryAge =
                                (now1 - oldestEntry) div (1000 * 60 * 60 * 24)\<rparr>)))"

text \<open>
  The object that \<open>getStats\<close> resolves to, with the names of its properties in the order
  of the object literal; the literals of the two error paths have the same names.
\<close>

definition statsObject :: "stats \<Rightarrow> (string \<times> js_value) list" where
  "statsObject st =
     [(''entries'', JsNumber (int (entries st))),
      (''totalSizeKB'', totalSizeKB st),
      (''oldestEntryAge'', JsNumber (oldestEntryAge st))]"

definition clearAll :: "backend \<Rightarrow> cache \<Rightarrow> unit promise \<times> cache" where
  "clearAll b c =
     (case c of
        InitRejected error \<Rightarrow> (Resolved (), c)
      | Db s \<Rightarrow>
          (case b of
             TransactionThrows error \<Rightarrow> (Rejected error, c)
           | RequestFails error \<Rightarrow> (Resolved (), c)
           | Healthy \<Rightarrow> (Resolved (), Db (store_clear s))))"

text \<open>Carrying out a call that was started and not awaited; its promise is dropped.\<close>

fun runTask :: "config \<Rightarrow> (nat \<Rightarrow> int) \<Rightarrow> backend \<Rightarrow> task \<Rightarrow> cache \<Rightarrow> cache" where
  "runTask cfg clock b (DeleteTask k) c = snd (delete b k c)"
| "runTask cfg clock b CleanupTask c = snd (cleanupOldEntries cfg clock b c)"

section \<open>Notions of the specification\<close>

text \<open>
  The rolling hash of a string as a polynomial in \<open>31\<close> over its code units, before the
  reduction to 32 bits.
\<close>

definition rollingHash :: "js_string \<Rightarrow> int" where
  "rollingHash u = (\<Sum>i<length u. uint (u ! i) * 31 ^ (length u - Suc i))"

definition isDigit :: "code_unit \<Rightarrow> bool" where
  "isDigit c = (0x30 \<le> c \<and> c \<le> 0x39)"

text \<open>
  The record at position \<open>i\<close> of the snapshot \<open>es\<close> is older than the expiry window when
  the sweep looks at it.
\<close>

definition expiredAt :: "config \<Rightarrow> (nat \<Rightarrow> int) \<Rightarrow> cache_record list \<Rightarrow> nat \<Rightarrow> bool" where
  "expiredAt cfg clock es i = (clock i - timestamp (es ! i) > CACHE_EXPIRY_MS cfg)"

text \<open>A row in which both selectors find an element.\<close>

definition hasBoth :: "row \<Rightarrow> bool" where
  "hasBoth r = (link r \<noteq> None \<and> cell r \<noteq> None)"

text \<open>
  The words of a text: its maximal parts without white space, in order.
\<close>

function wordsOf :: "js_string \<Rightarrow> js_string list" where
  "wordsOf s =
     (let r = dropWhile isWhiteSpace s
      in if r = [] then []
         else takeWhile (\<lambda>c. \<not> isWhiteSpace c) r
                # wordsOf (dropWhile (\<lambda>c. \<not> isWhiteSpace c) r))"
  by pat_completeness auto
termination
proof (relation "measure length")
  show "wf (measure length)" by simp
next
  fix s r :: js_string
  assume r: "r = dropWhile isWhiteSpace s" and ne: "r \<noteq> []"
  obtain c cs where cs: "r = c # cs" using ne by (cases r) auto
  have "\<not> isWhiteSpace (hd r)" using ne unfolding r by (rule hd_dropWhile)
  then have "\<not> isWhiteSpace c" using cs by simp
  then have "dropWhile (\<lambda>c. \<not> isWhiteSpace c) r = dropWhile (\<lambda>c. \<not> isWhiteSpace c) cs"
    using cs by simp
  then have "length (dropWhile (\<lambda>c. \<not> isWhiteSpace c) r) \<le> length cs"
    by (simp add: length_dropWhile_le)
  moreover have "length r \<le> length s" unfolding r by (rule length_dropWhile_le)
  ultimately have "length (dropWhile (\<lambda>c. \<not> isWhiteSpace c) r) < length s"
    using cs by simp
  then show "(dropWhile (\<lambda>c. \<not> isWhiteSpace c) r, s) \<in> measure length" by simp
qed

declare wordsOf.simps [simp del]

text \<open>The words joined by single underscores.\<close>

fun joinWords :: "js_string list \<Rightarrow> js_string" where
  "joinWords [] = []"
| "joinWords [w] = w"
| "joinWords (w # v # ws) = w @ 0x5F # joinWords (v # ws)"

text \<open>A text that neither begins nor ends with white space.\<close>

definition noOuterSpace :: "js_string \<Rightarrow> bool" where
  "noOuterSpace s = (s = [] \<or> (\<not> isWhiteSpace (hd s) \<and> \<not> isWhiteSpace (last s)))"

text \<open>
  The underscore by which \<open>replaceWhitespace\<close> ends its result when the text ends with
  white space; it serves the proofs about the words of a text.
\<close>

definition trailMark :: "js_string \<Rightarrow> js_string" where
  "trailMark s = (if s \<noteq> [] \<and> isWhiteSpace (last s) then [0x5F] else [])"

text \<open>
  Reading a decimal numeral: \<open>readDecimal\<close> gives the value of a non-empty string of digits
  without a leading zero (the string \<open>0\<close> apart), and \<open>readHundredths\<close> the value, in
  hundredths, of such a numeral followed by a point and two digits.
\<close>

definition digitValue :: "code_unit \<Rightarrow> nat option" where
  "digitValue c = (if 0x30 \<le> c \<and> c \<le> 0x39 then Some (unat c - 48) else None)"

fun readDigits :: "nat \<Rightarrow> js_string \<Rightarrow> nat option" where
  "readDigits acc [] = Some acc"
| "readDigits acc (c # cs) =
     (case digitValue c of None \<Rightarrow> None | Some d \<Rightarrow> readDigits (10 * acc + d) cs)"

definition readDecimal :: "js_string \<Rightarrow> nat option" where
  "readDecimal s =
     (if s = [] \<or> (hd s = 0x30 \<and> length s > 1) then None else readDigits 0 s)"

definition readHundredths :: "js_string \<Rightarrow> nat option" where
  "readHundredths s =
     (case rev s of
        d2 # d1 # point # whole \<Rightarrow>
          (case (readDecimal (rev whole), digitValue d1, digitValue d2) of
             (Some i, Some a, Some b) \<Rightarrow> if point = 0x2E then Some (100 * i + 10 * a + b) else None
           | _ \<Rightarrow> None)
      | _ \<Rightarrow> None)"

text \<open>
  The contents of a store: its records are in strictly ascending key order, so there is
  one record for a key, and none of them has an empty tag list.
\<close>

definition keysOrdered :: "store \<Rightarrow> bool" where
  "keysOrdered s = sorted_wrt (<) (map key s)"

definition noEmptyTags :: "store \<Rightarrow> bool" where
  "noEmptyTags s = list_all (\<lambda>r. tags r \<noteq> []) s"

definition storeInv :: "cache \<Rightarrow> bool" where
  "storeInv c = (case c of Db s \<Rightarrow> keysOrdered s \<and> noEmptyTags s | InitRejected error \<Rightarrow> True)"

text \<open>
  The states of the cache in the life of a database: \<open>onupgradeneeded\<close> creates the store
  empty, or opening fails; after that the store changes by \<open>set\<close>, \<open>delete\<close>,
  \<open>cleanupOldEntries\<close> and \<open>clearAll\<close> only, called in any order, at any time and with any
  behaviour of the database (the calls that \<open>get\<close> and \<open>set\<close> start are a \<open>delete\<close> and a
  \<open>cleanupOldEntries\<close>).
\<close>

inductive reachable :: "config \<Rightarrow> browser \<Rightarrow> cache \<Rightarrow> bool" for cfg br where
  created: "reachable cfg br (Db [])"
| open_failed: "reachable cfg br (InitRejected error)"
| after_set: "reachable cfg br c \<Longrightarrow> set' cfg br now b k html c = (p, c', started)
    \<Longrightarrow> reachable cfg br c'"
| after_delete: "reachable cfg br c \<Longrightarrow> delete b k c = (p, c') \<Longrightarrow> reachable cfg br c'"
| after_cleanup: "reachable cfg br c \<Longrightarrow> cleanupOldEntries cfg clock b c = (p, c')
    \<Longrightarrow> reachable cfg br c'"
| after_clearAll: "reachable cfg br c \<Longrightarrow> clearAll b c = (p, c') \<Longrightarrow> reachable cfg br c'"

section \<open>Sample inputs\<close>

text \<open>A clock that reads \<open>t\<close> at every callback of a sweep.\<close>

definition frozenClock :: "int \<Rightarrow> nat \<Rightarrow> int" where
  "frozenClock t i = t"

text \<open>The configuration of the script with room for two records.\<close>

definition smallConfig :: config where
  "smallConfig = \<lparr>CACHE_EXPIRY_MS = 7 * 24 * 60 * 60 * 1000, MAX_CACHE_SIZE = 2\<rparr>"

definition sampleTags :: "tag list" where
  "sampleTags = [\<lparr>name = js ''long_hair'', confidence = js ''98%''\<rparr>]"

definition sampleRecord :: "string \<Rightarrow> int \<Rightarrow> cache_record" where
  "sampleRecord k t = \<lparr>key = js k, tags = sampleTags, timestamp = t,
     timestampFormatted = js ''01.01.1970 00:00'', size' = 41\<rparr>"

text \<open>Three records in key order; the one with the largest key is the oldest.\<close>

definition sampleStore :: store where
  "sampleStore =
     [sampleRecord ''litd_1'' 10, sampleRecord ''litd_2'' 20, sampleRecord ''litd_3'' 0]"

text \<open>Two records with sizes of more than a kilobyte.\<close>

definition sizedStore :: store where
  "sizedStore =
     [(sampleRecord ''litd_1'' 10)\<lparr>size' := 1500\<rparr>,
      (sampleRecord ''litd_2'' 20)\<lparr>size' := 12345\<rparr>]"

text \<open>
  The byte size of the JSON text of a tag list whose strings are ASCII and need no escape:
  \<open>[{"name":"...","confidence":"..."},...]\<close>.
\<close>

definition asciiJsonSize :: "tag list \<Rightarrow> nat" where
  "asciiJsonSize data =
     (if data = [] then 2
      else 1 + sum_list (map (\<lambda>t. 28 + length (name t) + length (confidence t)) data))"

text \<open>
  A browser that knows the rows of the given documents (its parser throws on any other
  text), sizes JSON as above and is in the first minute of 1970 in its time zone.
\<close>

definition browserOn :: "(js_string \<times> row list) list \<Rightarrow> browser" where
  "browserOn documents =
     \<lparr>tbodyRows = (\<lambda>html. case map_of documents html of Some rows \<Rightarrow> Inr rows
                                 | None \<Rightarrow> Inl (DOMException ''SyntaxError'')),
      jsonBlobSize = asciiJsonSize,
      localTime = (\<lambda>ts. \<lparr>getDate = 1, getMonth = 0, getFullYear = 1970,
                            getHours = 0, getMinutes = 0\<rparr>)\<rparr>"

text \<open>
  Responses of the tagging service: a table whose rows hold the anchor of a tag name and
  the cell of its confidence. The last row of \<open>sampleHtml\<close> has no confidence cell;
  \<open>completeHtml\<close> is the same table without that row. In \<open>oddHtml\<close> one anchor is empty
  and its cell has a space on either side of the text. \<open>errorPage\<close> has no table.
\<close>

definition quoted :: "string \<Rightarrow> js_string" where
  "quoted s = [0x22] @ js s @ [0x22]"

definition anchorHtml :: "string \<Rightarrow> js_string" where
  "anchorHtml t =
     js ''<td><a class='' @ quoted ''text-sky-600 hover:text-sky-500 mr-4'' @ js '' href=#>''
       @ js t @ js ''</a></td>''"

definition cellHtml :: "string \<Rightarrow> js_string" where
  "cellHtml t =
     js ''<td class='' @ quoted ''text-gray-400 text-right'' @ js ''>'' @ js t @ js ''</td>''"

definition tableHtml :: "js_string list \<Rightarrow> js_string" where
  "tableHtml rows =
     js ''<table><tbody>'' @ concat (map (\<lambda>r. js ''<tr>'' @ r @ js ''</tr>'') rows)
       @ js ''</tbody></table>''"

definition sampleHtml :: js_string where
  "sampleHtml = tableHtml
     [anchorHtml ''long hair'' @ cellHtml '' 98% '',
      anchorHtml ''1girl'' @ cellHtml ''97%'',
      anchorHtml ''blue  eyes'' @ cellHtml ''80%'',
      anchorHtml ''solo'']"

definition sampleRows :: "row list" where
  "sampleRows =
     [\<lparr>link = Some (js ''long hair''), cell = Some (js '' 98% '')\<rparr>,
      \<lparr>link = Some (js ''1girl''), cell = Some (js ''97%'')\<rparr>,
      \<lparr>link = Some (js ''blue  eyes''), cell = Some (js ''80%'')\<rparr>,
      \<lparr>link = Some (js ''solo''), cell = None\<rparr>]"

definition completeHtml :: js_string where
  "completeHtml = tableHtml
     [anchorHtml ''long hair'' @ cellHtml '' 98% '',
      anchorHtml ''1girl'' @ cellHtml ''97%'',
      anchorHtml ''blue  eyes'' @ cellHtml ''80%'']"

definition oddHtml :: js_string where
  "oddHtml = tableHtml
     [anchorHtml '''' @ cellHtml '' 98% '',
      anchorHtml ''long hair'' @ cellHtml ''97%'']"

definition oddRows :: "row list" where
  "oddRows =
     [\<lparr>link = Some (js ''''), cell = Some (js '' 98% '')\<rparr>,
      \<lparr>link = Some (js ''long hair''), cell = Some (js ''97%'')\<rparr>]"

definition errorPage :: js_string where
  "errorPage = js ''<html><body><h1>502 Bad Gateway</h1></body></html>''"

definition sampleBrowser :: browser where
  "sampleBrowser = browserOn
     [(sampleHtml, sampleRows), (completeHtml, take 3 sampleRows), (oddHtml, oddRows),
      (errorPage, [])]"

definition sampleUrl :: js_string where
  "sampleUrl = js ''https://cdn.donmai.us/original/ab/cd/abcd.jpg''"

section \<open>Key derivation\<close>

lemma toInt32_mod: "toInt32 x mod 2 ^ 32 = x mod 2 ^ 32"
  unfolding toInt32_def by (simp add: mod_simps)

lemma toInt32_cong: "x mod 2 ^ 32 = y mod 2 ^ 32 \<Longrightarrow> toInt32 x = toInt32 y"
  unfolding toInt32_def by (metis mod_add_left_eq)

lemma toInt32_range: "- (2 ^ 31) \<le> toInt32 x \<and> toInt32 x < 2 ^ 31"
  unfolding toInt32_def by simp

lemma toInt32_step: "toInt32 ((toInt32 (toInt32 x * 2 ^ 5) - toInt32 x) + c) = toInt32 (x * 31 + c)"
proof (rule toInt32_cong)
  have shl: "toInt32 (toInt32 x * 2 ^ 5) mod 2 ^ 32 = (x * 2 ^ 5) mod 2 ^ 32"
    using mod_mult_cong [OF toInt32_mod [of x] refl [of "2 ^ 5 mod 2 ^ 32"]]
    by (simp only: toInt32_mod)
  have "((toInt32 (toInt32 x * 2 ^ 5) - toInt32 x) + c) mod 2 ^ 32
      = ((x * 2 ^ 5 - x) + c) mod 2 ^ 32"
    by (rule mod_add_cong [OF mod_diff_cong [OF shl toInt32_mod] refl])
  also have "(x * 2 ^ 5 - x) + c = x * 31 + c"
    by simp
  finally show "((toInt32 (toInt32 x * 2 ^ 5) - toInt32 x) + c) mod 2 ^ 32 = (x * 31 + c) mod 2 ^ 32" .
qed

lemma rollingHash_Cons: "rollingHash (c # cs) = uint c * 31 ^ length cs + rollingHash cs"
  unfolding rollingHash_def by (simp add: sum.lessThan_Suc_shift del: sum.lessThan_Suc)

lemma hashLoop_poly:
  "hashLoop (toInt32 x) u = toInt32 (x * 31 ^ length u + rollingHash u)"
proof (induction u arbitrary: x)
  case Nil
  show ?case by (simp add: rollingHash_def)
next
  case (Cons c cs)
  have "hashLoop (toInt32 x) (c # cs) = hashLoop (toInt32 (x * 31 + uint c)) cs"
    using toInt32_step [of x "uint c"] by simp
  also have "\<dots> = toInt32 ((x * 31 + uint c) * 31 ^ length cs + rollingHash cs)"
    by (rule Cons.IH)
  also have "\<dots> = toInt32 (x * 31 ^ length (c # cs) + rollingHash (c # cs))"
    by (simp add: rollingHash_Cons algebra_simps)
  finally show ?case .
qed

lemma hashLoop_rollingHash: "hashLoop 0 u = toInt32 (rollingHash u)"
  using hashLoop_poly [of 0 u] by (simp add: toInt32_def)

lemma isDigit_digitChar: "d < 10 \<Longrightarrow> isDigit (digitChar d)"
proof -
  assume "d < 10"
  then have "d \<in> {0, 1, 2, 3, 4, 5, 6, 7, 8, 9}" by auto
  then show ?thesis by (auto simp: isDigit_def digitChar_def)
qed

lemma digits_all_digit: "list_all isDigit (digits n)"
proof (induction n rule: digits.induct)
  case (1 n)
  show ?case
  proof (cases "n < 10")
    case True
    then show ?thesis by (simp add: digits.simps [of n] isDigit_digitChar)
  next
    case False
    then show ?thesis using 1 by (simp add: digits.simps [of n] isDigit_digitChar)
  qed
qed

lemma digits_length: "n < 10 ^ k \<Longrightarrow> 0 < k \<Longrightarrow> length (digits n) \<le> k"
proof (induction n arbitrary: k rule: digits.induct)
  case (1 n)
  show ?case
  proof (cases "n < 10")
    case True
    then show ?thesis using 1(3) by (simp add: digits.simps [of n])
  next
    case False
    obtain j where k: "k = Suc j" using 1(3) by (cases k) auto
    have "j > 0" using False 1(2) k by (cases j) auto
    moreover have "n div 10 < 10 ^ j" using 1(2) k by (simp add: less_mult_imp_div_less)
    ultimately have "length (digits (n div 10)) \<le> j" using 1(1) [OF False] by blast
    then show ?thesis using False k by (simp add: digits.simps [of n])
  qed
qed

lemma digits_nonempty: "digits n \<noteq> []"
  by (subst digits.simps) simp

text \<open>
  C8: \<open>generateKey\<close> is a function of the URL alone, defined for every string of code
  units, the empty one included: the key is the prefix \<open>litd_\<close> followed by the decimal
  digits of the absolute value of the rolling hash reduced to a signed 32-bit integer.
  So it is made of the five characters of the prefix and one to ten digits, and the key of
  the empty string is \<open>litd_0\<close>.
\<close>

theorem generateKey_prefix_abs_hash:
  "generateKey u = js ''litd_'' @ digits (nat \<bar>toInt32 (rollingHash u)\<bar>)
   \<and> list_all isDigit (drop 5 (generateKey u))
   \<and> take 5 (generateKey u) = js ''litd_''
   \<and> 6 \<le> length (generateKey u) \<and> length (generateKey u) \<le> 15
   \<and> generateKey [] = js ''litd_0''"
proof -
  let ?h = "toInt32 (rollingHash u)"
  have key: "generateKey u = js ''litd_'' @ digits (nat \<bar>?h\<bar>)"
    by (simp add: generateKey_def numberToString_def hashLoop_rollingHash)
  have len5: "length (js ''litd_'') = 5" by (simp add: js_def)
  have "nat \<bar>?h\<bar> < 10 ^ 10" using toInt32_range [of "rollingHash u"] by (simp add: abs_if) linarith
  then have "length (digits (nat \<bar>?h\<bar>)) \<le> 10" by (rule digits_length) simp
  moreover have "length (digits (nat \<bar>?h\<bar>)) \<ge> 1"
    using digits_nonempty [of "nat \<bar>?h\<bar>"] by (cases "digits (nat \<bar>?h\<bar>)") auto
  moreover have "generateKey [] = js ''litd_0''"
    by (simp add: generateKey_def numberToString_def digits.simps digitChar_def js_def)
  ultimately show ?thesis
    using key len5 digits_all_digit [of "nat \<bar>?h\<bar>"] by simp
qed

theorem generateKey_prefix_abs_hash_witness:
  "generateKey (js ''abc'') = js ''litd_96354''
   \<and> generateKey (js ''polygenelubricants'') = js ''litd_2147483648''
   \<and> hashLoop 0 (js ''polygenelubricants'') = - 2147483648
   \<and> generateKey sampleUrl = js ''litd_514093070''
   \<and> length (generateKey sampleUrl) \<le> 15"
proof -
  have "generateKey (js ''abc'') = js ''litd_96354''"
    by (simp add: generateKey_def numberToString_def js_def toInt32_def digits.simps
        digitChar_def)
  moreover have "hashLoop 0 (js ''polygenelubricants'') = - 2147483648"
    by (simp add: js_def toInt32_def)
  moreover have "generateKey (js ''polygenelubricants'') = js ''litd_2147483648''"
    by (simp add: generateKey_def numberToString_def js_def toInt32_def digits.simps
        digitChar_def)
  moreover have "generateKey sampleUrl = js ''litd_514093070''"
    by (simp add: generateKey_def numberToString_def js_def toInt32_def digits.simps
        digitChar_def sampleUrl_def)
  moreover have "length (generateKey sampleUrl) \<le> 15"
    using generateKey_prefix_abs_hash [of sampleUrl] by blast
  ultimately show ?thesis by blast
qed

section \<open>The eviction sweep\<close>

lemma markEntries_set:
  "set (markEntries cfg clock n i es) =
     {key (es ! j) | j. j < length es \<and>
        (clock (i + j) - timestamp (es ! j) > CACHE_EXPIRY_MS cfg \<or> i + j < n - MAX_CACHE_SIZE cfg)}"
proof (induction es arbitrary: i)
  case Nil
  show ?case by simp
next
  case (Cons e es)
  let ?P = "\<lambda>i j x. clock (i + j) - timestamp x > CACHE_EXPIRY_MS cfg \<or> i + j < n - MAX_CACHE_SIZE cfg"
  have split: "{key ((e # es) ! j) | j. j < length (e # es) \<and> ?P i j ((e # es) ! j)}
      = (if ?P i 0 e then {key e} else {}) \<union> {key (es ! j) | j. j < length es \<and> ?P (Suc i) j (es ! j)}"
    (is "?L = ?R")
  proof (rule set_eqI)
    fix x
    show "x \<in> ?L \<longleftrightarrow> x \<in> ?R"
    proof
      assume "x \<in> ?L"
      then obtain j where j: "j < length (e # es)" "?P i j ((e # es) ! j)" "x = key ((e # es) ! j)"
        by blast
      show "x \<in> ?R"
      proof (cases j)
        case 0
        then show ?thesis using j by simp
      next
        case (Suc j')
        then have "j' < length es \<and> ?P (Suc i) j' (es ! j') \<and> x = key (es ! j')"
          using j by simp
        then show ?thesis by blast
      qed
    next
      assume "x \<in> ?R"
      then consider "?P i 0 e \<and> x = key e"
        | j' where "j' < length es" "?P (Suc i) j' (es ! j')" "x = key (es ! j')"
        by (auto split: if_splits)
      then show "x \<in> ?L"
      proof cases
        case 1
        then have "0 < length (e # es) \<and> ?P i 0 ((e # es) ! 0) \<and> x = key ((e # es) ! 0)" by simp
        then show ?thesis by blast
      next
        case 2
        then have "Suc j' < length (e # es) \<and> ?P i (Suc j') ((e # es) ! Suc j') \<and> x = key ((e # es) ! Suc j')"
          by simp
        then show ?thesis by blast
      qed
    qed
  qed
  have cap: "(n > MAX_CACHE_SIZE cfg \<and> int i < int n - int (MAX_CACHE_SIZE cfg)) \<longleftrightarrow> i < n - MAX_CACHE_SIZE cfg"
    by linarith
  have head: "set (if clock i - timestamp e > CACHE_EXPIRY_MS cfg then [key e]
      else if n > MAX_CACHE_SIZE cfg \<and> int i < int n - int (MAX_CACHE_SIZE cfg) then [key e] else [])
     = (if ?P i 0 e then {key e} else {})"
    unfolding cap by simp
  show ?case
    unfolding split using Cons.IH [of "Suc i"] head by simp
qed

lemma markEntries_subset: "set (markEntries cfg clock n i es) \<subseteq> key ` set es"
  by (induction es arbitrary: i) auto

lemma markEntries_distinct:
  "distinct (map key es) \<Longrightarrow> distinct (markEntries cfg clock n i es)"
proof (induction es arbitrary: i)
  case Nil
  show ?case by simp
next
  case (Cons e es)
  have "key e \<notin> set (markEntries cfg clock n (Suc i) es)"
    using Cons.prems markEntries_subset [of cfg clock n "Suc i" es] by auto
  then show ?case using Cons by auto
qed

lemma markEntries_fresh:
  "\<forall>j<length es. clock (i + j) - timestamp (es ! j) \<le> CACHE_EXPIRY_MS cfg \<Longrightarrow>
   markEntries cfg clock n i es = map key (take (n - MAX_CACHE_SIZE cfg - i) es)"
proof (induction es arbitrary: i)
  case Nil
  show ?case by simp
next
  case (Cons e es)
  have e: "\<not> clock i - timestamp e > CACHE_EXPIRY_MS cfg"
    using Cons.prems [rule_format, of 0] by simp
  have rest: "\<forall>j<length es. clock (Suc i + j) - timestamp (es ! j) \<le> CACHE_EXPIRY_MS cfg"
  proof (intro allI impI)
    fix j
    assume "j < length es"
    then have "Suc j < length (e # es)" by simp
    from Cons.prems [rule_format, OF this]
    show "clock (Suc i + j) - timestamp (es ! j) \<le> CACHE_EXPIRY_MS cfg" by simp
  qed
  have IH: "markEntries cfg clock n (Suc i) es = map key (take (n - MAX_CACHE_SIZE cfg - Suc i) es)"
    by (rule Cons.IH [OF rest])
  show ?case
  proof (cases "i < n - MAX_CACHE_SIZE cfg")
    case True
    then obtain d where d: "n - MAX_CACHE_SIZE cfg - i = Suc d"
      by (metis Suc_diff_Suc)
    then have "n - MAX_CACHE_SIZE cfg - Suc i = d" by simp
    moreover have "MAX_CACHE_SIZE cfg < n \<and> int i < int n - int (MAX_CACHE_SIZE cfg)"
      using True by linarith
    ultimately show ?thesis using e IH d by simp
  next
    case False
    then have "\<not> (MAX_CACHE_SIZE cfg < n \<and> int i < int n - int (MAX_CACHE_SIZE cfg))"
      by linarith
    then show ?thesis using e IH False by simp
  qed
qed

lemma fold_store_delete:
  "fold store_delete ks s = filter (\<lambda>r. key r \<notin> set ks) s"
proof (induction ks arbitrary: s)
  case Nil
  show ?case by simp
next
  case (Cons k ks)
  have "fold store_delete (k # ks) s = filter (\<lambda>r. key r \<notin> set ks) (store_delete k s)"
    by (simp add: Cons.IH)
  also have "\<dots> = filter (\<lambda>r. key r \<notin> set (k # ks)) s"
    by (simp add: store_delete_def conj_commute)
  finally show ?case .
qed


lemma set_take_nth: "set (take m xs) = {xs ! j | j. j < length xs \<and> j < m}"
proof (rule set_eqI)
  fix x
  show "x \<in> set (take m xs) \<longleftrightarrow> x \<in> {xs ! j | j. j < length xs \<and> j < m}"
  proof
    assume "x \<in> set (take m xs)"
    then obtain i where "i < length (take m xs)" "take m xs ! i = x"
      by (auto simp: in_set_conv_nth)
    then have "x = xs ! i \<and> i < length xs \<and> i < m" by simp
    then show "x \<in> {xs ! j | j. j < length xs \<and> j < m}" by blast
  next
    assume "x \<in> {xs ! j | j. j < length xs \<and> j < m}"
    then obtain j where j: "x = xs ! j" "j < length xs" "j < m" by blast
    then have "j < length (take m xs) \<and> take m xs ! j = x" by simp
    then show "x \<in> set (take m xs)" by (metis nth_mem)
  qed
qed

lemma index_timestamp_set: "set (index_timestamp s) = set s"
  by (simp add: index_timestamp_def)

lemma index_timestamp_length: "length (index_timestamp s) = length s"
  by (simp add: index_timestamp_def)

lemma index_timestamp_sorted: "sorted (map timestamp (index_timestamp s))"
  by (simp add: index_timestamp_def)

lemma index_timestamp_distinct_keys:
  "distinct (map key s) \<Longrightarrow> distinct (map key (index_timestamp s))"
  by (simp add: distinct_map index_timestamp_def)

lemma toDelete_set:
  "set (toDelete cfg clock s) =
     key ` ({index_timestamp s ! i | i. i < length s \<and> expiredAt cfg clock (index_timestamp s) i}
            \<union> set (take (length s - MAX_CACHE_SIZE cfg) (index_timestamp s)))"
proof -
  let ?es = "index_timestamp s"
  have len: "length ?es = length s" by (rule index_timestamp_length)
  have tk: "set (take (length s - MAX_CACHE_SIZE cfg) ?es)
      = {?es ! j | j. j < length s \<and> j < length s - MAX_CACHE_SIZE cfg}"
    using len by (simp add: set_take_nth)
  have "set (toDelete cfg clock s) =
      {key (?es ! j) | j. j < length s \<and>
         (expiredAt cfg clock ?es j \<or> j < length s - MAX_CACHE_SIZE cfg)}"
    using markEntries_set [of cfg clock "length ?es" 0 ?es]
    by (simp add: toDelete_def Let_def len expiredAt_def)
  also have "\<dots> = key ` ({?es ! i | i. i < length s \<and> expiredAt cfg clock ?es i}
            \<union> {?es ! j | j. j < length s \<and> j < length s - MAX_CACHE_SIZE cfg})"
    by blast
  finally show ?thesis unfolding tk .
qed

lemma toDelete_distinct: "distinct (map key s) \<Longrightarrow> distinct (toDelete cfg clock s)"
  unfolding toDelete_def Let_def
  by (rule markEntries_distinct) (rule index_timestamp_distinct_keys)

lemma toDelete_fresh:
  assumes "\<forall>i<length s. \<not> expiredAt cfg clock (index_timestamp s) i"
  shows "toDelete cfg clock s = map key (take (length s - MAX_CACHE_SIZE cfg) (index_timestamp s))"
proof -
  let ?es = "index_timestamp s"
  have "\<forall>j<length ?es. clock (0 + j) - timestamp (?es ! j) \<le> CACHE_EXPIRY_MS cfg"
    using assms by (simp add: expiredAt_def index_timestamp_length not_less)
  from markEntries_fresh [OF this, of "length ?es"]
  show ?thesis by (simp add: toDelete_def Let_def index_timestamp_length)
qed

lemma survivors_of_prefix:
  assumes d: "distinct (map key s)"
  shows "set (filter (\<lambda>r. key r \<notin> set (map key (take m (index_timestamp s)))) s)
           = set (drop m (index_timestamp s))
         \<and> length (filter (\<lambda>r. key r \<notin> set (map key (take m (index_timestamp s)))) s)
           = length s - m"
proof -
  let ?es = "index_timestamp s"
  let ?P = "\<lambda>r. key r \<notin> set (map key (take m ?es))"
  have des: "distinct (map key (take m ?es @ drop m ?es))"
    using index_timestamp_distinct_keys [OF d] by simp
  then have disj: "key ` set (take m ?es) \<inter> key ` set (drop m ?es) = {}"
    by (simp only: map_append distinct_append set_map)
  have un: "set s = set (take m ?es) \<union> set (drop m ?es)"
    using index_timestamp_set [of s] set_append [of "take m ?es" "drop m ?es"] by simp
  have eq: "{r \<in> set s. ?P r} = set (drop m ?es)"
    using disj un by auto
  have ds: "distinct s" using d by (simp add: distinct_map)
  have "distinct ?es" using index_timestamp_distinct_keys [OF d] by (simp add: distinct_map)
  then have "distinct (drop m ?es)" by simp
  then have "card (set (drop m ?es)) = length (drop m ?es)" by (rule distinct_card)
  moreover have "length (filter ?P s) = card {r \<in> set s. ?P r}"
    using ds by (simp add: distinct_length_filter Int_def conj_commute)
  ultimately have "length (filter ?P s) = length s - m"
    using eq by (simp add: index_timestamp_length)
  then show ?thesis using eq by simp
qed

lemma cleanupOldEntries_Healthy:
  "cleanupOldEntries cfg clock Healthy (Db s)
     = (Resolved (), Db (filter (\<lambda>r. key r \<notin> set (toDelete cfg clock s)) s))"
proof (cases "toDelete cfg clock s")
  case Nil
  then show ?thesis by (simp add: cleanupOldEntries_def Let_def)
next
  case (Cons k ks)
  then show ?thesis
    using fold_store_delete [of "k # ks" s]
    by (simp add: cleanupOldEntries_def Let_def)
qed

text \<open>
  C1: on a store with one record per key and a database that works, the sweep deletes
  exactly the records whose key is in \<open>toDelete\<close>; no key is in that list twice; the keys
  in it are those of the records that are expired when the sweep looks at them, together
  with those of the first \<open>length s - MAX_CACHE_SIZE\<close> records of the snapshot, which is
  ordered by ascending time stamp. In particular, with room for \<open>N\<close> records and \<open>N + k\<close>
  records none of which is expired, the \<open>k\<close> oldest are deleted and the \<open>N\<close> newest stay.
\<close>

theorem cleanupOldEntries_union:
  assumes "distinct (map key s)"
  shows "cleanupOldEntries cfg clock Healthy (Db s)
           = (Resolved (), Db (filter (\<lambda>r. key r \<notin> set (toDelete cfg clock s)) s))
       \<and> distinct (toDelete cfg clock s)
       \<and> set (toDelete cfg clock s)
           = key ` ({index_timestamp s ! i | i.
                       i < length s \<and> expiredAt cfg clock (index_timestamp s) i}
                   \<union> set (take (length s - MAX_CACHE_SIZE cfg) (index_timestamp s)))
       \<and> sorted (map timestamp (index_timestamp s))
       \<and> set (index_timestamp s) = set s
       \<and> (MAX_CACHE_SIZE cfg = N \<and> length s = N + k
            \<and> (\<forall>i<length s. \<not> expiredAt cfg clock (index_timestamp s) i)
          \<longrightarrow> toDelete cfg clock s = map key (take k (index_timestamp s))
            \<and> set (filter (\<lambda>r. key r \<notin> set (toDelete cfg clock s)) s)
                = set (drop k (index_timestamp s))
            \<and> length (filter (\<lambda>r. key r \<notin> set (toDelete cfg clock s)) s) = N)"
proof -
  have particular:
    "toDelete cfg clock s = map key (take k (index_timestamp s))
      \<and> set (filter (\<lambda>r. key r \<notin> set (toDelete cfg clock s)) s)
          = set (drop k (index_timestamp s))
      \<and> length (filter (\<lambda>r. key r \<notin> set (toDelete cfg clock s)) s) = N"
    if h: "MAX_CACHE_SIZE cfg = N" "length s = N + k"
          "\<forall>i<length s. \<not> expiredAt cfg clock (index_timestamp s) i"
  proof -
    have td: "toDelete cfg clock s = map key (take k (index_timestamp s))"
      using toDelete_fresh [OF h(3)] h(1,2) by simp
    show ?thesis
      unfolding td using survivors_of_prefix [OF assms, of k] h(2) td by simp
  qed
  show ?thesis
    using cleanupOldEntries_Healthy [of cfg clock s] toDelete_distinct [OF assms, of cfg clock]
      toDelete_set [of cfg clock s] index_timestamp_sorted [of s] index_timestamp_set [of s]
      particular
    by blast
qed

theorem cleanupOldEntries_union_witness:
  "distinct (map key sampleStore)
   \<and> MAX_CACHE_SIZE smallConfig = 2 \<and> length sampleStore = 2 + 1
   \<and> \<not> expiredAt smallConfig (frozenClock 20) (index_timestamp sampleStore) 0
   \<and> \<not> expiredAt smallConfig (frozenClock 20) (index_timestamp sampleStore) 1
   \<and> \<not> expiredAt smallConfig (frozenClock 20) (index_timestamp sampleStore) 2
   \<and> toDelete smallConfig (frozenClock 20) sampleStore = [js ''litd_3'']
   \<and> cleanupOldEntries smallConfig (frozenClock 20) Healthy (Db sampleStore)
       = (Resolved (), Db [sampleRecord ''litd_1'' 10, sampleRecord ''litd_2'' 20])"
  using cleanupOldEntries_union [of sampleStore smallConfig "frozenClock 20" 2 1]
  by (simp add: sampleStore_def sampleRecord_def smallConfig_def frozenClock_def js_def
      index_timestamp_def expiredAt_def All_less_Suc toDelete_def cleanupOldEntries_def
      store_delete_def)

section \<open>The store and its invariant\<close>

lemma store_get_put_same: "store_get (key r) (store_put r s) = Some r"
  by (induction s) (auto simp: store_get_def)

lemma store_get_put_other: "k \<noteq> key r \<Longrightarrow> store_get k (store_put r s) = store_get k s"
  by (induction s) (auto simp: store_get_def)

lemma store_get_delete_same: "store_get k (store_delete k s) = None"
  by (induction s) (auto simp: store_get_def store_delete_def)

lemma store_get_delete_other:
  "k' \<noteq> k \<Longrightarrow> store_get k' (store_delete k s) = store_get k' s"
  by (induction s) (auto simp: store_get_def store_delete_def)

lemma set_store_put: "set (store_put r s) \<subseteq> insert r (set s)"
  by (induction s) auto

lemma keys_store_put: "key ` set (store_put r s) = insert (key r) (key ` set s)"
  by (induction s) auto

lemma keysOrdered_put: "keysOrdered s \<Longrightarrow> keysOrdered (store_put r s)"
proof (induction s)
  case Nil
  show ?case by (simp add: keysOrdered_def)
next
  case (Cons x xs)
  have tail: "keysOrdered xs" using Cons.prems by (simp add: keysOrdered_def)
  have above: "\<forall>y\<in>set xs. key x < key y" using Cons.prems by (simp add: keysOrdered_def)
  show ?case
  proof (cases "key r = key x")
    case True
    then show ?thesis using Cons.prems by (simp add: keysOrdered_def)
  next
    case False
    show ?thesis
    proof (cases "key r < key x")
      case True
      then have "\<forall>y\<in>set xs. key r < key y" using above by fastforce
      then show ?thesis using True False Cons.prems by (simp add: keysOrdered_def)
    next
      case gt: False
      then have lt: "key x < key r" using False by simp
      have "\<forall>k\<in>key ` set (store_put r xs). key x < k"
        unfolding keys_store_put using lt above by simp
      then show ?thesis
        using gt False Cons.IH [OF tail] by (simp add: keysOrdered_def)
    qed
  qed
qed

lemma keysOrdered_filter: "keysOrdered s \<Longrightarrow> keysOrdered (filter P s)"
  unfolding keysOrdered_def by (induction s) auto

lemma keysOrdered_distinct: "keysOrdered s \<Longrightarrow> distinct (map key s)"
  unfolding keysOrdered_def by (simp add: strict_sorted_iff)

lemma noEmptyTags_put: "noEmptyTags s \<Longrightarrow> tags r \<noteq> [] \<Longrightarrow> noEmptyTags (store_put r s)"
  unfolding noEmptyTags_def by (induction s) auto

lemma noEmptyTags_filter: "noEmptyTags s \<Longrightarrow> noEmptyTags (filter P s)"
  unfolding noEmptyTags_def by (induction s) auto

lemma storeInv_set:
  assumes "storeInv c" "set' cfg br now b k html c = (p, c', started)"
  shows "storeInv c'"
proof (cases c)
  case (InitRejected e)
  then show ?thesis using assms by (simp add: set'_def)
next
  case (Db s)
  show ?thesis
  proof (cases "parseTagData br html = []")
    case True
    then show ?thesis using assms Db by (simp add: set'_def)
  next
    case False
    show ?thesis
    proof (cases b)
      case Healthy
      then show ?thesis
        using assms Db False
        by (auto simp: set'_def Let_def storeInv_def keysOrdered_put noEmptyTags_put)
    next
      case (TransactionThrows e)
      then show ?thesis using assms Db False by (auto simp: set'_def Let_def)
    next
      case (RequestFails e)
      then show ?thesis using assms Db False by (auto simp: set'_def Let_def)
    qed
  qed
qed

lemma storeInv_delete:
  assumes "storeInv c" "delete b k c = (p, c')"
  shows "storeInv c'"
  using assms
  by (auto simp: delete_def storeInv_def store_delete_def keysOrdered_filter noEmptyTags_filter
      split: cache.splits backend.splits)

lemma storeInv_cleanup:
  assumes "storeInv c" "cleanupOldEntries cfg clock b c = (p, c')"
  shows "storeInv c'"
  using assms
  by (auto simp: cleanupOldEntries_def Let_def storeInv_def fold_store_delete
      keysOrdered_filter noEmptyTags_filter split: cache.splits backend.splits if_splits)

lemma storeInv_clearAll:
  assumes "storeInv c" "clearAll b c = (p, c')"
  shows "storeInv c'"
  using assms
  by (auto simp: clearAll_def storeInv_def store_clear_def keysOrdered_def noEmptyTags_def
      split: cache.splits backend.splits)

lemma reachable_storeInv: "reachable cfg br c \<Longrightarrow> storeInv c"
proof (induction rule: reachable.induct)
  case created
  show ?case by (simp add: storeInv_def keysOrdered_def noEmptyTags_def)
next
  case (open_failed error)
  show ?case by (simp add: storeInv_def)
next
  case (after_set c now b k html p c' started)
  then show ?case by (blast intro: storeInv_set)
next
  case (after_delete c b k p c')
  then show ?case by (blast intro: storeInv_delete)
next
  case (after_cleanup c clock b p c')
  then show ?case by (blast intro: storeInv_cleanup)
next
  case (after_clearAll c b p c')
  then show ?case by (blast intro: storeInv_clearAll)
qed

lemma reachable_distinct_keys: "reachable cfg br (Db s) \<Longrightarrow> distinct (map key s)"
  using reachable_storeInv [of cfg br "Db s"] by (simp add: storeInv_def keysOrdered_distinct)

section \<open>Reading and writing\<close>

lemma sampleBrowser_rows:
  "tbodyRows sampleBrowser sampleHtml = Inr sampleRows"
  "tbodyRows sampleBrowser completeHtml = Inr (take 3 sampleRows)"
  "tbodyRows sampleBrowser oddHtml = Inr oddRows"
  "tbodyRows sampleBrowser errorPage = Inr []"
  "tbodyRows sampleBrowser [] = Inl (DOMException ''SyntaxError'')"
  by (simp_all add: sampleBrowser_def browserOn_def sampleHtml_def completeHtml_def oddHtml_def
      errorPage_def tableHtml_def anchorHtml_def cellHtml_def quoted_def js_def)

lemma sample_parse:
  "parseTagData sampleBrowser sampleHtml =
     [\<lparr>name = js ''long_hair'', confidence = js ''98%''\<rparr>,
      \<lparr>name = js ''1girl'', confidence = js ''97%''\<rparr>,
      \<lparr>name = js ''blue_eyes'', confidence = js ''80%''\<rparr>]"
  by (simp add: parseTagData_def sampleBrowser_rows sampleRows_def
      rowToTag_def trim_def js_def isWhiteSpace_def)

lemma sample_parse_errorPage: "parseTagData sampleBrowser errorPage = []"
  by (simp add: parseTagData_def sampleBrowser_rows)

lemma sampleBrowser_fields:
  "jsonBlobSize sampleBrowser = asciiJsonSize"
  "localTime sampleBrowser t =
     \<lparr>getDate = 1, getMonth = 0, getFullYear = 1970, getHours = 0, getMinutes = 0\<rparr>"
  by (simp_all add: sampleBrowser_def browserOn_def)

lemma sample_sizes:
  "calculateSize sampleBrowser (parseTagData sampleBrowser sampleHtml) = 117"
  "formatTimestamp sampleBrowser t = js ''01.01.1970 00:00''"
  by (simp_all add: sample_parse calculateSize_def formatTimestamp_def sampleBrowser_fields
      asciiJsonSize_def js_def padStart2_def numberToString_def digits.simps
      digitChar_def Let_def)

text \<open>
  C3: when the store holds a record under the key and the database works, \<open>get\<close> of a
  record older than the expiry window resolves to \<open>null\<close> and starts the deletion of the
  key, after which the store has no record under it; \<open>get\<close> of a record that is not older
  than the window resolves to its tags.
\<close>

theorem get_expiry:
  assumes "store_get k s = Some r"
  shows "(now - timestamp r > CACHE_EXPIRY_MS cfg \<longrightarrow>
            get cfg now Healthy k (Db s) = (Resolved None, [DeleteTask k])
          \<and> runTask cfg clock Healthy (DeleteTask k) (Db s) = Db (store_delete k s)
          \<and> store_get k (store_delete k s) = None)
       \<and> (now - timestamp r \<le> CACHE_EXPIRY_MS cfg \<longrightarrow>
            get cfg now Healthy k (Db s) = (Resolved (Some (tags r)), []))"
  using assms by (simp add: get_def delete_def store_get_delete_same)

theorem get_expiry_witness:
  "store_get (js ''litd_3'') sampleStore = Some (sampleRecord ''litd_3'' 0)
   \<and> 604800001 - timestamp (sampleRecord ''litd_3'' 0) > CACHE_EXPIRY_MS CONFIG
   \<and> get CONFIG 604800001 Healthy (js ''litd_3'') (Db sampleStore)
       = (Resolved None, [DeleteTask (js ''litd_3'')])
   \<and> runTask CONFIG (frozenClock 604800001) Healthy (DeleteTask (js ''litd_3'')) (Db sampleStore)
       = Db [sampleRecord ''litd_1'' 10, sampleRecord ''litd_2'' 20]
   \<and> store_get (js ''litd_3'') [sampleRecord ''litd_1'' 10, sampleRecord ''litd_2'' 20] = None
   \<and> 604800000 - timestamp (sampleRecord ''litd_3'' 0) \<le> CACHE_EXPIRY_MS CONFIG
   \<and> get CONFIG 604800000 Healthy (js ''litd_3'') (Db sampleStore)
       = (Resolved (Some sampleTags), [])"
proof -
  have h: "store_get (js ''litd_3'') sampleStore = Some (sampleRecord ''litd_3'' 0)"
    by (simp add: store_get_def sampleStore_def sampleRecord_def js_def)
  have d: "store_delete (js ''litd_3'') sampleStore
             = [sampleRecord ''litd_1'' 10, sampleRecord ''litd_2'' 20]"
    by (simp add: store_delete_def sampleStore_def sampleRecord_def js_def)
  show ?thesis
    using h
      get_expiry [OF h, where now = 604800001 and cfg = CONFIG
                          and clock = "frozenClock 604800001"]
      get_expiry [OF h, where now = 604800000 and cfg = CONFIG
                          and clock = "frozenClock 604800000"]
    by (simp add: d) (simp add: sampleRecord_def CONFIG_def)
qed

text \<open>
  C5: when the database works and the response yields the tag list \<open>T\<close>, which is not
  empty, \<open>set\<close> at time \<open>t0\<close> resolves after storing a record under the key, and \<open>get\<close> of
  that key on the store it leaves, at a time \<open>t1\<close> not more than the expiry window after
  \<open>t0\<close>, resolves to \<open>T\<close> itself. The key is any string, the key of a URL among them.
\<close>

theorem set_then_get_roundtrip:
  assumes "parseTagData br html = T" and "T \<noteq> []" and "t1 - t0 \<le> CACHE_EXPIRY_MS cfg"
  shows "\<exists>s'. set' cfg br t0 Healthy k html (Db s) = (Resolved (), Db s', [CleanupTask])
            \<and> get cfg t1 Healthy k (Db s') = (Resolved (Some T), [])"
proof -
  let ?entry = "\<lparr>key = k, tags = T, timestamp = t0,
                  timestampFormatted = formatTimestamp br t0, size' = calculateSize br T\<rparr>"
  have put: "set' cfg br t0 Healthy k html (Db s)
               = (Resolved (), Db (store_put ?entry s), [CleanupTask])"
    using assms(1,2) by (simp add: set'_def Let_def)
  have "store_get k (store_put ?entry s) = Some ?entry"
    using store_get_put_same [of ?entry s] by simp
  then have "get cfg t1 Healthy k (Db (store_put ?entry s)) = (Resolved (Some T), [])"
    using assms(3) by (simp add: get_def)
  then show ?thesis using put by blast
qed

theorem set_then_get_roundtrip_witness:
  "parseTagData sampleBrowser sampleHtml =
     [\<lparr>name = js ''long_hair'', confidence = js ''98%''\<rparr>,
      \<lparr>name = js ''1girl'', confidence = js ''97%''\<rparr>,
      \<lparr>name = js ''blue_eyes'', confidence = js ''80%''\<rparr>]
   \<and> 25 - 20 \<le> CACHE_EXPIRY_MS CONFIG
   \<and> set' CONFIG sampleBrowser 20 Healthy (generateKey sampleUrl) sampleHtml (Db sampleStore)
       = (Resolved (),
          Db (store_put
                \<lparr>key = generateKey sampleUrl,
                 tags = [\<lparr>name = js ''long_hair'', confidence = js ''98%''\<rparr>,
                         \<lparr>name = js ''1girl'', confidence = js ''97%''\<rparr>,
                         \<lparr>name = js ''blue_eyes'', confidence = js ''80%''\<rparr>],
                 timestamp = 20, timestampFormatted = js ''01.01.1970 00:00'', size' = 117\<rparr>
                sampleStore),
          [CleanupTask])
   \<and> get CONFIG 25 Healthy (generateKey sampleUrl)
         (Db (store_put
                \<lparr>key = generateKey sampleUrl,
                 tags = [\<lparr>name = js ''long_hair'', confidence = js ''98%''\<rparr>,
                         \<lparr>name = js ''1girl'', confidence = js ''97%''\<rparr>,
                         \<lparr>name = js ''blue_eyes'', confidence = js ''80%''\<rparr>],
                 timestamp = 20, timestampFormatted = js ''01.01.1970 00:00'', size' = 117\<rparr>
                sampleStore))
       = (Resolved (Some [\<lparr>name = js ''long_hair'', confidence = js ''98%''\<rparr>,
                          \<lparr>name = js ''1girl'', confidence = js ''97%''\<rparr>,
                          \<lparr>name = js ''blue_eyes'', confidence = js ''80%''\<rparr>]), [])"
proof -
  have t: "(25::int) - 20 \<le> CACHE_EXPIRY_MS CONFIG" by (simp add: CONFIG_def)
  have ne: "[\<lparr>name = js ''long_hair'', confidence = js ''98%''\<rparr>,
      \<lparr>name = js ''1girl'', confidence = js ''97%''\<rparr>,
      \<lparr>name = js ''blue_eyes'', confidence = js ''80%''\<rparr>] \<noteq> []" by simp
  from set_then_get_roundtrip [OF sample_parse ne t, where k = "generateKey sampleUrl"
                                  and s = sampleStore]
  show ?thesis
    using t sample_parse sample_sizes by (auto simp: set'_def Let_def)
qed

text \<open>
  C4: when the response yields no tag, \<open>set\<close> resolves and leaves the cache as it was,
  whatever the database does, and starts no call; a \<open>get\<close> of a key that had no record
  still resolves to \<open>null\<close>. No store that the cache methods can produce from the empty
  store holds a record with an empty tag list.
\<close>

theorem set_without_tags_is_noop:
  "(parseTagData br html = [] \<longrightarrow> set' cfg br now b k html c = (Resolved (), c, []))
   \<and> (parseTagData br html = [] \<and> store_get k s = None \<longrightarrow>
        set' cfg br now b k html (Db s) = (Resolved (), Db s, [])
        \<and> get cfg now' Healthy k (Db s) = (Resolved None, []))
   \<and> (reachable cfg br (Db s) \<longrightarrow> noEmptyTags s)"
proof -
  have noop: "set' cfg br now b k html c = (Resolved (), c, [])"
    if "parseTagData br html = []" for c
    using that by (cases c) (simp_all add: set'_def)
  have inv: "noEmptyTags s" if "reachable cfg br (Db s)"
    using reachable_storeInv [OF that] by (simp add: storeInv_def)
  show ?thesis using noop inv by (simp add: get_def)
qed

theorem set_without_tags_is_noop_witness:
  "parseTagData sampleBrowser errorPage = []
   \<and> store_get (generateKey sampleUrl) [] = None
   \<and> set' CONFIG sampleBrowser 20 Healthy (generateKey sampleUrl) errorPage (Db [])
       = (Resolved (), Db [], [])
   \<and> get CONFIG 25 Healthy (generateKey sampleUrl) (Db []) = (Resolved None, [])
   \<and> reachable CONFIG sampleBrowser
        (Db [\<lparr>key = generateKey sampleUrl,
              tags = [\<lparr>name = js ''long_hair'', confidence = js ''98%''\<rparr>,
                      \<lparr>name = js ''1girl'', confidence = js ''97%''\<rparr>,
                      \<lparr>name = js ''blue_eyes'', confidence = js ''80%''\<rparr>],
              timestamp = 20, timestampFormatted = js ''01.01.1970 00:00'', size' = 117\<rparr>])
   \<and> noEmptyTags
        [\<lparr>key = generateKey sampleUrl,
          tags = [\<lparr>name = js ''long_hair'', confidence = js ''98%''\<rparr>,
                  \<lparr>name = js ''1girl'', confidence = js ''97%''\<rparr>,
                  \<lparr>name = js ''blue_eyes'', confidence = js ''80%''\<rparr>],
          timestamp = 20, timestampFormatted = js ''01.01.1970 00:00'', size' = 117\<rparr>]"
proof -
  let ?s = "[\<lparr>key = generateKey sampleUrl,
              tags = [\<lparr>name = js ''long_hair'', confidence = js ''98%''\<rparr>,
                      \<lparr>name = js ''1girl'', confidence = js ''97%''\<rparr>,
                      \<lparr>name = js ''blue_eyes'', confidence = js ''80%''\<rparr>],
              timestamp = 20, timestampFormatted = js ''01.01.1970 00:00'', size' = 117\<rparr>]"
  have "set' CONFIG sampleBrowser 20 Healthy (generateKey sampleUrl) sampleHtml (Db [])
          = (Resolved (), Db ?s, [CleanupTask])"
    using sample_parse sample_sizes by (simp add: set'_def Let_def)
  then have r: "reachable CONFIG sampleBrowser (Db ?s)"
    by (rule reachable.after_set [OF reachable.created])
  have g: "store_get (generateKey sampleUrl) [] = None" by (simp add: store_get_def)
  show ?thesis
    using set_without_tags_is_noop
            [where br = sampleBrowser and html = errorPage and cfg = CONFIG and now = 20
               and b = Healthy and k = "generateKey sampleUrl" and c = "Db []" and s = "[]"
               and now' = 25]
      set_without_tags_is_noop
            [where br = sampleBrowser and html = errorPage and cfg = CONFIG and now = 20
               and b = Healthy and k = "generateKey sampleUrl" and c = "Db []" and s = ?s
               and now' = 25]
      sample_parse_errorPage g r
    by simp
qed

text \<open>
  C2: \<open>set\<close> on the sample response when the \<open>put\<close> request fails with
  \<open>QuotaExceededError\<close>: the promise of \<open>set\<close> is rejected with that error, and nothing is
  stored.
\<close>

theorem set_rejects_when_put_fails:
  "set' CONFIG sampleBrowser 20 (RequestFails (DOMException ''QuotaExceededError''))
      (generateKey sampleUrl) sampleHtml (Db [])
     = (Rejected (DOMException ''QuotaExceededError''), Db [], [])"
  by (simp add: set'_def sample_parse)

section \<open>The compressor\<close>

lemma rowToTag_None: "rowToTag r = None \<longleftrightarrow> \<not> hasBoth r"
  by (auto simp: rowToTag_def hasBoth_def split: option.splits)

lemma filterBoolean_rows:
  "list_all2 (\<lambda>t r. rowToTag r = Some t) (filterBoolean (map rowToTag rows)) (filter hasBoth rows)"
proof (induction rows)
  case Nil
  show ?case by simp
next
  case (Cons r rows)
  show ?case
  proof (cases "rowToTag r")
    case None
    then have "\<not> hasBoth r" by (simp add: rowToTag_None)
    then show ?thesis using None Cons.IH by simp
  next
    case (Some t)
    then have "hasBoth r" using rowToTag_None [of r] by auto
    then show ?thesis using Some Cons.IH by simp
  qed
qed

lemma filterBoolean_append: "filterBoolean (xs @ ys) = filterBoolean xs @ filterBoolean ys"
  by (induction xs rule: filterBoolean.induct) auto

lemma set_filterBoolean: "set (filterBoolean xs) = {x. Some x \<in> set xs}"
  by (induction xs rule: filterBoolean.induct) auto

text \<open>
  C7: when the parser finds the rows of the document, \<open>parseTagData\<close> returns one entry
  for each row that has both elements, in the order of the rows, and as many entries as
  there are such rows; a row that lacks one of them changes nothing in the result; when the
  parser throws, \<open>parseTagData\<close> returns the empty list.
\<close>

theorem parseTagData_one_entry_per_complete_row:
  "(tbodyRows br html = Inr rows \<longrightarrow>
      list_all2 (\<lambda>t r. rowToTag r = Some t) (parseTagData br html) (filter hasBoth rows)
      \<and> length (parseTagData br html) = length (filter hasBoth rows))
   \<and> (tbodyRows br html = Inr (before @ r # after) \<and> \<not> hasBoth r
        \<and> tbodyRows br html' = Inr (before @ after) \<longrightarrow>
      parseTagData br html = parseTagData br html')
   \<and> (tbodyRows br html = Inl error \<longrightarrow> parseTagData br html = [])"
proof -
  have one: "list_all2 (\<lambda>t r. rowToTag r = Some t) (parseTagData br html) (filter hasBoth rows)"
    if "tbodyRows br html = Inr rows"
    using that filterBoolean_rows [of rows] by (simp add: parseTagData_def)
  have len: "length (parseTagData br html) = length (filter hasBoth rows)"
    if "tbodyRows br html = Inr rows"
    using one [OF that] by (rule list_all2_lengthD)
  have skip: "parseTagData br html = parseTagData br html'"
    if "tbodyRows br html = Inr (before @ r # after)" "\<not> hasBoth r"
       "tbodyRows br html' = Inr (before @ after)"
  proof -
    have "rowToTag r = None" using that(2) by (simp add: rowToTag_None)
    then show ?thesis using that(1,3) by (simp add: parseTagData_def filterBoolean_append)
  qed
  have err: "parseTagData br html = []" if "tbodyRows br html = Inl error"
    using that by (simp add: parseTagData_def)
  show ?thesis using one len skip err by blast
qed

theorem parseTagData_one_entry_per_complete_row_witness:
  "tbodyRows sampleBrowser sampleHtml = Inr sampleRows
   \<and> length (parseTagData sampleBrowser sampleHtml) = 3
   \<and> length (filter hasBoth sampleRows) = 3
   \<and> tbodyRows sampleBrowser sampleHtml
       = Inr (take 3 sampleRows @ \<lparr>link = Some (js ''solo''), cell = None\<rparr> # [])
   \<and> \<not> hasBoth \<lparr>link = Some (js ''solo''), cell = None\<rparr>
   \<and> tbodyRows sampleBrowser completeHtml = Inr (take 3 sampleRows @ [])
   \<and> parseTagData sampleBrowser sampleHtml = parseTagData sampleBrowser completeHtml
   \<and> tbodyRows sampleBrowser [] = Inl (DOMException ''SyntaxError'')
   \<and> parseTagData sampleBrowser [] = []"
proof -
  have rows: "sampleRows = take 3 sampleRows @ \<lparr>link = Some (js ''solo''), cell = None\<rparr> # []"
    by (simp add: sampleRows_def)
  have three: "length (filter hasBoth sampleRows) = 3"
    by (simp add: sampleRows_def hasBoth_def)
  have bad: "\<not> hasBoth \<lparr>link = Some (js ''solo''), cell = None\<rparr>"
    by (simp add: hasBoth_def)
  have a: "tbodyRows sampleBrowser sampleHtml
       = Inr (take 3 sampleRows @ \<lparr>link = Some (js ''solo''), cell = None\<rparr> # [])"
    using sampleBrowser_rows(1) rows by simp
  have b: "tbodyRows sampleBrowser completeHtml = Inr (take 3 sampleRows @ [])"
    using sampleBrowser_rows(2) by simp
  note complete =
    parseTagData_one_entry_per_complete_row
      [where br = sampleBrowser and html = sampleHtml and rows = sampleRows
         and before = "take 3 sampleRows"
         and r = "\<lparr>link = Some (js ''solo''), cell = None\<rparr>" and after = "[]"
         and html' = completeHtml]
  note thrown =
    parseTagData_one_entry_per_complete_row
      [where br = sampleBrowser and html = "[]" and error = "DOMException ''SyntaxError''"]
  have "length (parseTagData sampleBrowser sampleHtml) = length (filter hasBoth sampleRows)"
    using complete sampleBrowser_rows(1) by blast
  then have p1: "length (parseTagData sampleBrowser sampleHtml) = 3"
    by (simp only: three)
  have p2: "parseTagData sampleBrowser sampleHtml = parseTagData sampleBrowser completeHtml"
    using complete a bad b by blast
  have p3: "parseTagData sampleBrowser [] = []"
    using thrown sampleBrowser_rows(5) by blast
  show ?thesis
    using sampleBrowser_rows(1,5) p1 p2 p3 three bad a b by blast
qed

lemma underscore_not_space: "\<not> isWhiteSpace 0x5F"
  by (simp add: isWhiteSpace_def)

lemma replaceWhitespace_no_space: "list_all (\<lambda>x. \<not> isWhiteSpace x) (replaceWhitespace s)"
  by (induction s rule: replaceWhitespace.induct) (simp_all add: underscore_not_space)

lemma replaceWhitespace_id: "list_all (\<lambda>x. \<not> isWhiteSpace x) s \<Longrightarrow> replaceWhitespace s = s"
  by (induction s) simp_all

lemma dropWhile_run:
  assumes "list_all isWhiteSpace w" and "b = [] \<or> \<not> isWhiteSpace (hd b)"
  shows "dropWhile isWhiteSpace (w @ b) = b"
proof -
  have "dropWhile isWhiteSpace (w @ b) = dropWhile isWhiteSpace b"
    using assms(1) by (simp add: dropWhile_append list_all_iff)
  also have "\<dots> = b" using assms(2) by (cases b) auto
  finally show ?thesis .
qed

lemma replaceWhitespace_run_first:
  assumes "w \<noteq> []" and "list_all isWhiteSpace w" and "b = [] \<or> \<not> isWhiteSpace (hd b)"
  shows "replaceWhitespace (w @ b) = 0x5F # replaceWhitespace b"
proof -
  obtain c w' where w: "w = c # w'" using assms(1) by (cases w) auto
  then have "isWhiteSpace c" "list_all isWhiteSpace w'" using assms(2) by simp_all
  then show ?thesis using w dropWhile_run [OF _ assms(3), of w'] by simp
qed

lemma replaceWhitespace_run:
  assumes "a = [] \<or> \<not> isWhiteSpace (last a)"
    and "w \<noteq> []" and "list_all isWhiteSpace w" and "b = [] \<or> \<not> isWhiteSpace (hd b)"
  shows "replaceWhitespace (a @ w @ b) = replaceWhitespace a @ 0x5F # replaceWhitespace b"
  using assms(1)
proof (induction a rule: replaceWhitespace.induct)
  case 1
  show ?case using replaceWhitespace_run_first [OF assms(2,3,4)] by simp
next
  case (2 c cs)
  show ?case
  proof (cases "isWhiteSpace c")
    case False
    have "cs = [] \<or> \<not> isWhiteSpace (last cs)" using "2.prems" by (cases cs) auto
    then show ?thesis using False "2.IH"(2) by simp
  next
    case True
    have notall: "\<exists>x\<in>set cs. \<not> isWhiteSpace x"
      using "2.prems" True by (cases cs rule: rev_cases) auto
    let ?d = "dropWhile isWhiteSpace cs"
    have dne: "?d \<noteq> []" using notall by (simp add: dropWhile_eq_Nil_conv)
    have "last ?d = last cs"
      using dne by (simp add: dropWhile_eq_drop)
    moreover have "\<not> isWhiteSpace (last cs)" using "2.prems" notall by (cases cs) auto
    ultimately have ih: "replaceWhitespace (?d @ w @ b)
        = replaceWhitespace ?d @ 0x5F # replaceWhitespace b"
      using "2.IH"(1) [OF True] by simp
    obtain x where "x \<in> set cs" "\<not> isWhiteSpace x" using notall by blast
    then have "dropWhile isWhiteSpace (cs @ w @ b) = ?d @ w @ b" by (rule dropWhile_append1)
    then show ?thesis using True ih by simp
  qed
qed

lemma trim_decompose:
  "\<exists>w1 w2. s = w1 @ trim s @ w2 \<and> list_all isWhiteSpace w1 \<and> list_all isWhiteSpace w2"
proof -
  let ?d = "dropWhile isWhiteSpace s"
  let ?w1 = "takeWhile isWhiteSpace s"
  let ?w2 = "rev (takeWhile isWhiteSpace (rev ?d))"
  have "rev (takeWhile isWhiteSpace (rev ?d) @ dropWhile isWhiteSpace (rev ?d)) = ?d"
    by (simp only: takeWhile_dropWhile_id rev_rev_ident)
  then have "rev (dropWhile isWhiteSpace (rev ?d)) @ ?w2 = ?d"
    by (simp only: rev_append)
  then have d: "?d = trim s @ ?w2" by (simp only: trim_def)
  have "s = ?w1 @ ?d" by simp
  then have "s = ?w1 @ trim s @ ?w2" using d by simp
  moreover have "list_all isWhiteSpace ?w1"
    by (simp add: list_all_iff) (meson set_takeWhileD)
  moreover have "list_all isWhiteSpace ?w2"
    by (simp add: list_all_iff) (meson set_takeWhileD)
  ultimately show ?thesis by blast
qed

lemma trim_ends: "trim s = [] \<or> (\<not> isWhiteSpace (hd (trim s)) \<and> \<not> isWhiteSpace (last (trim s)))"
proof (cases "trim s = []")
  case True
  then show ?thesis by simp
next
  case False
  let ?d = "dropWhile isWhiteSpace s"
  let ?e = "dropWhile isWhiteSpace (rev ?d)"
  have e: "?e \<noteq> []" using False by (simp add: trim_def)
  then have "\<not> isWhiteSpace (hd ?e)" by (rule hd_dropWhile)
  then have l: "\<not> isWhiteSpace (last (trim s))" using e by (simp add: trim_def last_rev)
  have dne: "?d \<noteq> []"
  proof
    assume empty: "?d = []"
    have "?e = []" by (simp only: empty rev.simps dropWhile.simps)
    then show False using e by contradiction
  qed
  then have hd: "\<not> isWhiteSpace (hd ?d)" by (rule hd_dropWhile)
  have "hd (trim s) = last ?e" using e by (simp add: trim_def hd_rev)
  also have "\<dots> = last (rev ?d)" using e by (simp add: dropWhile_eq_drop)
  also have "\<dots> = hd ?d" using dne by (simp add: last_rev)
  finally show ?thesis using hd l by simp
qed

lemma trim_id: "list_all (\<lambda>x. \<not> isWhiteSpace x) s \<Longrightarrow> trim s = s"
proof -
  assume a: "list_all (\<lambda>x. \<not> isWhiteSpace x) s"
  then have "dropWhile isWhiteSpace s = s" by (cases s) auto
  moreover have "dropWhile isWhiteSpace (rev s) = rev s"
    using a by (cases s rule: rev_cases) auto
  ultimately show ?thesis by (simp add: trim_def)
qed

lemma name_is_replaceWhitespace: "trim (replaceWhitespace l) = replaceWhitespace l"
  by (rule trim_id) (rule replaceWhitespace_no_space)

lemma wordsOf_Nil: "wordsOf [] = []"
  by (simp add: wordsOf.simps)

lemma wordsOf_dropWhile: "wordsOf (dropWhile isWhiteSpace s) = wordsOf s"
  by (simp add: wordsOf.simps [of s] wordsOf.simps [of "dropWhile isWhiteSpace s"])

lemma wordsOf_word:
  assumes "s \<noteq> []" and "\<not> isWhiteSpace (hd s)"
  shows "wordsOf s = takeWhile (\<lambda>c. \<not> isWhiteSpace c) s
                       # wordsOf (dropWhile (\<lambda>c. \<not> isWhiteSpace c) s)"
proof -
  have "dropWhile isWhiteSpace s = s" using assms by (cases s) auto
  then show ?thesis using assms(1) by (simp add: wordsOf.simps [of s] Let_def)
qed

lemma replaceWhitespace_word:
  "list_all (\<lambda>c. \<not> isWhiteSpace c) w \<Longrightarrow> replaceWhitespace (w @ rest) = w @ replaceWhitespace rest"
  by (induction w) simp_all

lemma replaceWhitespace_words:
  "s = [] \<or> \<not> isWhiteSpace (hd s) \<Longrightarrow>
   replaceWhitespace s = joinWords (wordsOf s) @ trailMark s"
proof (induction s rule: length_induct)
  case (1 s)
  show ?case
  proof (cases "s = []")
    case True
    then show ?thesis by (simp add: wordsOf_Nil trailMark_def)
  next
    case False
    then have hd: "\<not> isWhiteSpace (hd s)" using "1.prems" by simp
    let ?w = "takeWhile (\<lambda>c. \<not> isWhiteSpace c) s"
    let ?rest = "dropWhile (\<lambda>c. \<not> isWhiteSpace c) s"
    have wne: "?w \<noteq> []" using False hd by (cases s) auto
    have wall: "list_all (\<lambda>c. \<not> isWhiteSpace c) ?w"
      by (auto simp: list_all_iff dest: set_takeWhileD)
    have rw: "replaceWhitespace s = ?w @ replaceWhitespace ?rest"
      using replaceWhitespace_word [OF wall, of ?rest] by simp
    have words: "wordsOf s = ?w # wordsOf ?rest" using False hd by (rule wordsOf_word)
    show ?thesis
    proof (cases "?rest = []")
      case True
      then have "\<forall>x\<in>set s. \<not> isWhiteSpace x" by (simp only: dropWhile_eq_Nil_conv)
      then have "\<not> isWhiteSpace (last s)" using False last_in_set by blast
      then show ?thesis using rw words True by (simp add: wordsOf_Nil trailMark_def)
    next
      case rne: False
      then have rhd: "isWhiteSpace (hd ?rest)" using hd_dropWhile [OF rne] by simp
      let ?u = "takeWhile isWhiteSpace ?rest"
      let ?s' = "dropWhile isWhiteSpace ?rest"
      have une: "?u \<noteq> []" using rne rhd by (cases ?rest) auto
      have uall: "list_all isWhiteSpace ?u"
        by (auto simp: list_all_iff dest: set_takeWhileD)
      have s'hd: "?s' = [] \<or> \<not> isWhiteSpace (hd ?s')"
        using hd_dropWhile [of isWhiteSpace ?rest] by blast
      have "replaceWhitespace (?u @ ?s') = 0x5F # replaceWhitespace ?s'"
        using une uall s'hd by (rule replaceWhitespace_run_first)
      then have rrest: "replaceWhitespace ?rest = 0x5F # replaceWhitespace ?s'" by simp
      have "length ?s' \<le> length ?rest" by (rule length_dropWhile_le)
      moreover have "length ?rest < length s"
      proof -
        have "length (?w @ ?rest) = length ?w + length ?rest" by (rule length_append)
        then have "length s = length ?w + length ?rest" by (simp only: takeWhile_dropWhile_id)
        then show ?thesis using wne by simp
      qed
      ultimately have "length ?s' < length s" by simp
      then have ih: "replaceWhitespace ?s' = joinWords (wordsOf ?s') @ trailMark ?s'"
        using "1.IH" s'hd by blast
      have words': "wordsOf ?rest = wordsOf ?s'" by (simp add: wordsOf_dropWhile)
      have lasts: "last s = last ?rest"
      proof -
        have "last (?w @ ?rest) = last ?rest" using rne by (rule last_appendR)
        then show ?thesis by (simp only: takeWhile_dropWhile_id)
      qed
      show ?thesis
      proof (cases "?s' = []")
        case True
        then have "\<forall>x\<in>set ?rest. isWhiteSpace x" by (simp only: dropWhile_eq_Nil_conv)
        then have "isWhiteSpace (last ?rest)" using rne last_in_set by blast
        then have tm: "trailMark s = [0x5F]" using False lasts by (simp add: trailMark_def)
        have "replaceWhitespace s = ?w @ [0x5F]"
          using rw rrest True by (simp only: replaceWhitespace.simps)
        moreover have "wordsOf s = [?w]"
          using words words' True by (simp only: wordsOf_Nil)
        ultimately show ?thesis using tm by (simp only: joinWords.simps)
      next
        case s'ne: False
        then have nhd: "\<not> isWhiteSpace (hd ?s')" using s'hd by blast
        have "wordsOf ?s' = takeWhile (\<lambda>c. \<not> isWhiteSpace c) ?s'
                              # wordsOf (dropWhile (\<lambda>c. \<not> isWhiteSpace c) ?s')"
          using s'ne nhd by (rule wordsOf_word)
        then obtain v vs where v: "wordsOf ?s' = v # vs" by blast
        have "last (?u @ ?s') = last ?s'" using s'ne by (rule last_appendR)
        then have "last ?rest = last ?s'" by (simp only: takeWhile_dropWhile_id)
        then have tm: "trailMark s = trailMark ?s'"
          using False s'ne lasts by (simp add: trailMark_def)
        have "replaceWhitespace s = ?w @ 0x5F # joinWords (v # vs) @ trailMark ?s'"
          using rw rrest ih v by (simp only:)
        moreover have "wordsOf s = ?w # v # vs"
          using words words' v by (simp only:)
        ultimately show ?thesis using tm by (simp only: joinWords.simps append_assoc append_Cons)
      qed
    qed
  qed
qed

lemma replaceWhitespace_contains_words:
  "\<exists>p q. replaceWhitespace l = p @ joinWords (wordsOf l) @ q"
proof (cases "l = [] \<or> \<not> isWhiteSpace (hd l)")
  case True
  then have "replaceWhitespace l = [] @ joinWords (wordsOf l) @ trailMark l"
    by (simp add: replaceWhitespace_words)
  then show ?thesis by blast
next
  case False
  let ?u = "takeWhile isWhiteSpace l"
  let ?s = "dropWhile isWhiteSpace l"
  have une: "?u \<noteq> []" using False by (cases l) auto
  have uall: "list_all isWhiteSpace ?u"
    by (auto simp: list_all_iff dest: set_takeWhileD)
  have shd: "?s = [] \<or> \<not> isWhiteSpace (hd ?s)"
    using hd_dropWhile [of isWhiteSpace l] by blast
  have "replaceWhitespace (?u @ ?s) = 0x5F # replaceWhitespace ?s"
    using une uall shd by (rule replaceWhitespace_run_first)
  then have "replaceWhitespace l = 0x5F # replaceWhitespace ?s"
    by (simp only: takeWhile_dropWhile_id)
  also have "replaceWhitespace ?s = joinWords (wordsOf ?s) @ trailMark ?s"
    using shd by (rule replaceWhitespace_words)
  also have "wordsOf ?s = wordsOf l" by (rule wordsOf_dropWhile)
  finally have "replaceWhitespace l = [0x5F] @ joinWords (wordsOf l) @ trailMark ?s"
    by simp
  then show ?thesis by blast
qed

lemma replaceWhitespace_joins_words:
  "noOuterSpace l \<Longrightarrow> replaceWhitespace l = joinWords (wordsOf l)"
proof -
  assume a: "noOuterSpace l"
  then have "l = [] \<or> \<not> isWhiteSpace (hd l)" by (auto simp: noOuterSpace_def)
  then have "replaceWhitespace l = joinWords (wordsOf l) @ trailMark l"
    by (rule replaceWhitespace_words)
  moreover have "trailMark l = []" using a by (auto simp: noOuterSpace_def trailMark_def)
  ultimately show ?thesis by simp
qed

lemma rowToTag_shape:
  assumes "link r = Some l" and "cell r = Some c"
  shows "\<exists>t. rowToTag r = Some t
          \<and> (\<exists>p q. name t = p @ joinWords (wordsOf l) @ q)
          \<and> (noOuterSpace l \<longrightarrow> name t = joinWords (wordsOf l))
          \<and> list_all (\<lambda>x. \<not> isWhiteSpace x) (name t)
          \<and> (\<exists>w1 w2. c = w1 @ confidence t @ w2
                \<and> list_all isWhiteSpace w1 \<and> list_all isWhiteSpace w2)
          \<and> noOuterSpace (confidence t)"
proof -
  let ?t = "\<lparr>name = trim (replaceWhitespace l), confidence = trim c\<rparr>"
  have n: "name ?t = replaceWhitespace l" by (simp add: name_is_replaceWhitespace)
  have c: "confidence ?t = trim c" by simp
  have 1: "rowToTag r = Some ?t" using assms by (simp add: rowToTag_def)
  have 2: "\<exists>p q. name ?t = p @ joinWords (wordsOf l) @ q"
    unfolding n by (rule replaceWhitespace_contains_words)
  have 3: "noOuterSpace l \<longrightarrow> name ?t = joinWords (wordsOf l)"
    unfolding n using replaceWhitespace_joins_words [of l] by blast
  have 4: "list_all (\<lambda>x. \<not> isWhiteSpace x) (name ?t)"
    unfolding n by (rule replaceWhitespace_no_space)
  have 5: "\<exists>w1 w2. c = w1 @ confidence ?t @ w2
                \<and> list_all isWhiteSpace w1 \<and> list_all isWhiteSpace w2"
    unfolding c by (rule trim_decompose)
  have 6: "noOuterSpace (confidence ?t)"
    unfolding c noOuterSpace_def by (rule trim_ends)
  from 1 2 3 4 5 6 show ?thesis by (intro exI [of _ ?t] conjI)
qed

text \<open>
  C6, as the code has it by design: an entry of the result comes from a row of the
  document with both elements, and every such row has an entry in the result, also when
  the text of its link is empty. The name of the entry has no white space and contains the
  words of the text of the link joined by single underscores; it is exactly that when the
  text of the link neither begins nor ends with white space. The confidence of the entry
  is the text of the cell without the white space before and after it.
\<close>

theorem parseTagData_entry_shape:
  "(t \<in> set (parseTagData br html) \<longrightarrow>
      (\<exists>rows r l c. tbodyRows br html = Inr rows \<and> r \<in> set rows
          \<and> link r = Some l \<and> cell r = Some c
          \<and> (\<exists>p q. name t = p @ joinWords (wordsOf l) @ q)
          \<and> (noOuterSpace l \<longrightarrow> name t = joinWords (wordsOf l))
          \<and> list_all (\<lambda>x. \<not> isWhiteSpace x) (name t)
          \<and> (\<exists>w1 w2. c = w1 @ confidence t @ w2
                \<and> list_all isWhiteSpace w1 \<and> list_all isWhiteSpace w2)
          \<and> noOuterSpace (confidence t)))
   \<and> (tbodyRows br html = Inr rows \<and> r \<in> set rows \<and> link r = Some l \<and> cell r = Some c
        \<longrightarrow>
      (\<exists>t. t \<in> set (parseTagData br html)
          \<and> (\<exists>p q. name t = p @ joinWords (wordsOf l) @ q)
          \<and> (noOuterSpace l \<longrightarrow> name t = joinWords (wordsOf l))
          \<and> list_all (\<lambda>x. \<not> isWhiteSpace x) (name t)
          \<and> (\<exists>w1 w2. c = w1 @ confidence t @ w2
                \<and> list_all isWhiteSpace w1 \<and> list_all isWhiteSpace w2)
          \<and> noOuterSpace (confidence t)))"
proof -
  have shape:
    "\<exists>rows r l c. tbodyRows br html = Inr rows \<and> r \<in> set rows
          \<and> link r = Some l \<and> cell r = Some c
          \<and> (\<exists>p q. name t = p @ joinWords (wordsOf l) @ q)
          \<and> (noOuterSpace l \<longrightarrow> name t = joinWords (wordsOf l))
          \<and> list_all (\<lambda>x. \<not> isWhiteSpace x) (name t)
          \<and> (\<exists>w1 w2. c = w1 @ confidence t @ w2
                \<and> list_all isWhiteSpace w1 \<and> list_all isWhiteSpace w2)
          \<and> noOuterSpace (confidence t)"
    if t: "t \<in> set (parseTagData br html)"
  proof (cases "tbodyRows br html")
    case (Inl error)
    then show ?thesis using t by (simp add: parseTagData_def)
  next
    case (Inr rows)
    then have "Some t \<in> set (map rowToTag rows)"
      using t by (simp add: parseTagData_def set_filterBoolean)
    then obtain r where r: "r \<in> set rows" "rowToTag r = Some t" by auto
    then obtain l c where lc: "link r = Some l" "cell r = Some c"
      by (auto simp: rowToTag_def split: option.splits)
    from rowToTag_shape [OF lc] r(2)
    have "(\<exists>p q. name t = p @ joinWords (wordsOf l) @ q)
          \<and> (noOuterSpace l \<longrightarrow> name t = joinWords (wordsOf l))
          \<and> list_all (\<lambda>x. \<not> isWhiteSpace x) (name t)
          \<and> (\<exists>w1 w2. c = w1 @ confidence t @ w2
                \<and> list_all isWhiteSpace w1 \<and> list_all isWhiteSpace w2)
          \<and> noOuterSpace (confidence t)"
      by auto
    then show ?thesis using Inr r(1) lc by blast
  qed
  have kept:
    "\<exists>t. t \<in> set (parseTagData br html)
          \<and> (\<exists>p q. name t = p @ joinWords (wordsOf l) @ q)
          \<and> (noOuterSpace l \<longrightarrow> name t = joinWords (wordsOf l))
          \<and> list_all (\<lambda>x. \<not> isWhiteSpace x) (name t)
          \<and> (\<exists>w1 w2. c = w1 @ confidence t @ w2
                \<and> list_all isWhiteSpace w1 \<and> list_all isWhiteSpace w2)
          \<and> noOuterSpace (confidence t)"
    if h: "tbodyRows br html = Inr rows" "r \<in> set rows" "link r = Some l" "cell r = Some c"
  proof -
    from rowToTag_shape [OF h(3,4)] obtain t where t: "rowToTag r = Some t"
       "(\<exists>p q. name t = p @ joinWords (wordsOf l) @ q)
          \<and> (noOuterSpace l \<longrightarrow> name t = joinWords (wordsOf l))
          \<and> list_all (\<lambda>x. \<not> isWhiteSpace x) (name t)
          \<and> (\<exists>w1 w2. c = w1 @ confidence t @ w2
                \<and> list_all isWhiteSpace w1 \<and> list_all isWhiteSpace w2)
          \<and> noOuterSpace (confidence t)"
      by blast
    have "Some t \<in> set (map rowToTag rows)"
      using h(2) t(1) by (metis image_eqI set_map)
    then have "t \<in> set (parseTagData br html)"
      using h(1) by (simp add: parseTagData_def set_filterBoolean)
    then show ?thesis using t(2) by blast
  qed
  show ?thesis using shape kept by blast
qed

lemma odd_parse:
  "parseTagData sampleBrowser oddHtml =
     [\<lparr>name = [], confidence = js ''98%''\<rparr>,
      \<lparr>name = js ''long_hair'', confidence = js ''97%''\<rparr>]"
  by (simp add: parseTagData_def sampleBrowser_rows oddRows_def
      rowToTag_def trim_def js_def isWhiteSpace_def)

theorem parseTagData_entry_shape_witness:
  "\<lparr>name = js ''blue_eyes'', confidence = js ''80%''\<rparr>
      \<in> set (parseTagData sampleBrowser sampleHtml)
   \<and> (\<exists>rows r l c. tbodyRows sampleBrowser sampleHtml = Inr rows \<and> r \<in> set rows
          \<and> link r = Some l \<and> cell r = Some c
          \<and> (\<exists>p q. js ''blue_eyes'' = p @ joinWords (wordsOf l) @ q)
          \<and> (\<exists>w1 w2. c = w1 @ js ''80%'' @ w2
                \<and> list_all isWhiteSpace w1 \<and> list_all isWhiteSpace w2))
   \<and> noOuterSpace (js ''blue  eyes'')
   \<and> joinWords (wordsOf (js ''blue  eyes'')) = js ''blue_eyes''
   \<and> tbodyRows sampleBrowser oddHtml = Inr oddRows
   \<and> \<lparr>link = Some [], cell = Some (js '' 98% '')\<rparr> \<in> set oddRows
   \<and> noOuterSpace []
   \<and> (\<exists>t. t \<in> set (parseTagData sampleBrowser oddHtml) \<and> name t = [])"
proof -
  have m: "\<lparr>name = js ''blue_eyes'', confidence = js ''80%''\<rparr>
      \<in> set (parseTagData sampleBrowser sampleHtml)"
    by (simp add: sample_parse)
  have r: "\<lparr>link = Some [], cell = Some (js '' 98% '')\<rparr> \<in> set oddRows"
    by (simp add: oddRows_def js_def)
  have e: "noOuterSpace []" by (simp add: noOuterSpace_def)
  have b: "noOuterSpace (js ''blue  eyes'')"
    by (simp add: noOuterSpace_def js_def isWhiteSpace_def)
  have w: "joinWords (wordsOf (js ''blue  eyes'')) = js ''blue_eyes''"
    by (simp add: wordsOf.simps js_def isWhiteSpace_def)
  note entry =
    parseTagData_entry_shape
      [where t = "\<lparr>name = js ''blue_eyes'', confidence = js ''80%''\<rparr>"
         and br = sampleBrowser and html = sampleHtml]
  note row =
    parseTagData_entry_shape
      [where br = sampleBrowser and html = oddHtml and rows = oddRows
         and r = "\<lparr>link = Some [], cell = Some (js '' 98% '')\<rparr>"
         and l = "[]" and c = "js '' 98% ''"]
  have first: "\<exists>rows r l c. tbodyRows sampleBrowser sampleHtml = Inr rows \<and> r \<in> set rows
          \<and> link r = Some l \<and> cell r = Some c
          \<and> (\<exists>p q. js ''blue_eyes'' = p @ joinWords (wordsOf l) @ q)
          \<and> (\<exists>w1 w2. c = w1 @ js ''80%'' @ w2
                \<and> list_all isWhiteSpace w1 \<and> list_all isWhiteSpace w2)"
    using entry m by simp blast
  have "\<exists>t. t \<in> set (parseTagData sampleBrowser oddHtml)
          \<and> (noOuterSpace [] \<longrightarrow> name t = joinWords (wordsOf []))"
    using row sampleBrowser_rows(3) r by simp blast
  then have second: "\<exists>t. t \<in> set (parseTagData sampleBrowser oddHtml) \<and> name t = []"
    using e by (simp add: wordsOf_Nil)
  show ?thesis using m first b w sampleBrowser_rows(3) r e second by blast
qed

text \<open>
  C6, as the specification has it, fails on the document \<open>oddHtml\<close>: the row with the
  empty anchor yields an entry with the empty name, and the confidence of that entry is
  not the text of the cell, which has a space on either side.
\<close>

theorem parseTagData_retains_empty_name:
  "tbodyRows sampleBrowser oddHtml
     = Inr [\<lparr>link = Some [], cell = Some (js '' 98% '')\<rparr>,
            \<lparr>link = Some (js ''long hair''), cell = Some (js ''97%'')\<rparr>]
   \<and> parseTagData sampleBrowser oddHtml
     = [\<lparr>name = [], confidence = js ''98%''\<rparr>,
        \<lparr>name = js ''long_hair'', confidence = js ''97%''\<rparr>]
   \<and> js ''98%'' \<noteq> js '' 98% ''"
  using sampleBrowser_rows(3) odd_parse by (simp add: oddRows_def) (simp add: js_def)

section \<open>Statistics\<close>

lemma statsCursor_acc:
  "statsCursor n z t s =
     (n + length s, z + sum_list (map size' s), Min (insert t (timestamp ` set s)))"
proof (induction s arbitrary: n z t)
  case Nil
  show ?case by simp
next
  case (Cons e s)
  have "Min (insert (min t (timestamp e)) (timestamp ` set s))
      = Min (insert t (insert (timestamp e) (timestamp ` set s)))"
    by (cases "s = []") (simp_all add: min.assoc)
  then show ?case by (simp add: Cons.IH)
qed

lemma fixed2_tolerance:
  fixes z :: nat
  defines "n \<equiv> (200 * z + 1024) div (2 * 1024)"
  shows "\<bar>1024 * int n - 100 * int z\<bar> \<le> 512"
proof -
  have "200 * z + 1024 = 2048 * n + (200 * z + 1024) mod 2048"
    unfolding n_def by simp
  moreover have "(200 * z + 1024) mod 2048 < 2048" by simp
  ultimately show ?thesis by linarith
qed

lemma digitValue_digitChar: "d < 10 \<Longrightarrow> digitValue (digitChar d) = Some d"
proof -
  assume "d < 10"
  then have "d \<in> {0, 1, 2, 3, 4, 5, 6, 7, 8, 9}" by auto
  then show ?thesis by (auto simp: digitValue_def digitChar_def)
qed

lemma readDigits_snoc:
  "readDigits a (xs @ [c]) =
     (case readDigits a xs of
        None \<Rightarrow> None
      | Some v \<Rightarrow> (case digitValue c of None \<Rightarrow> None | Some d \<Rightarrow> Some (10 * v + d)))"
  by (induction xs arbitrary: a) (auto split: option.splits)

lemma readDigits_digits: "readDigits 0 (digits n) = Some n"
proof (induction n rule: digits.induct)
  case (1 n)
  show ?case
  proof (cases "n < 10")
    case True
    then show ?thesis by (simp add: digits.simps [of n] digitValue_digitChar)
  next
    case False
    then have "readDigits 0 (digits (n div 10)) = Some (n div 10)" by (rule 1)
    then show ?thesis
      using False by (simp add: digits.simps [of n] readDigits_snoc digitValue_digitChar)
  qed
qed

lemma digitChar_zero: "d < 10 \<Longrightarrow> digitChar d = 0x30 \<longleftrightarrow> d = 0"
proof -
  assume "d < 10"
  then have "d \<in> {0, 1, 2, 3, 4, 5, 6, 7, 8, 9}" by auto
  then show ?thesis by (auto simp: digitChar_def)
qed

lemma hd_digits: "0 < n \<Longrightarrow> hd (digits n) \<noteq> 0x30"
proof (induction n rule: digits.induct)
  case (1 n)
  show ?case
  proof (cases "n < 10")
    case True
    then show ?thesis using "1.prems" by (simp add: digits.simps [of n] digitChar_zero)
  next
    case False
    then have "0 < n div 10" by simp
    then have "hd (digits (n div 10)) \<noteq> 0x30" using 1(1) [OF False] by blast
    moreover have "digits (n div 10) \<noteq> []" by (rule digits_nonempty)
    ultimately show ?thesis using False by (simp add: digits.simps [of n])
  qed
qed

lemma readDecimal_digits: "readDecimal (digits n) = Some n"
proof (cases "n = 0")
  case True
  then show ?thesis
    by (simp add: readDecimal_def digits.simps [of 0] digitValue_digitChar)
next
  case False
  then have "hd (digits n) \<noteq> 0x30" by (simp add: hd_digits)
  then show ?thesis by (simp add: readDecimal_def digits_nonempty readDigits_digits)
qed

lemma hundredths_parts: "100 * (n div 100) + 10 * (n mod 100 div 10) + n mod 10 = (n::nat)"
proof -
  have "n mod 100 = 10 * (n mod 100 div 10) + n mod 100 mod 10" by simp
  moreover have "n mod 100 mod 10 = n mod 10" by (simp add: mod_mod_cancel)
  moreover have "n = 100 * (n div 100) + n mod 100" by simp
  ultimately show ?thesis by linarith
qed

lemma readHundredths_render:
  assumes "a < 10" and "b < 10"
  shows "readHundredths (digits i @ js ''.'' @ [digitChar a, digitChar b])
           = Some (100 * i + 10 * a + b)"
proof -
  have r: "rev (digits i @ js ''.'' @ [digitChar a, digitChar b])
             = digitChar b # digitChar a # 0x2E # rev (digits i)"
    by (simp add: js_def)
  show ?thesis
    unfolding readHundredths_def r
    by (simp add: readDecimal_digits digitValue_digitChar assms)
qed

lemma readHundredths_toFixed2:
  "readHundredths (toFixed2 p q) = Some ((200 * p + q) div (2 * q))"
proof -
  let ?n = "(200 * p + q) div (2 * q)"
  have a: "?n mod 100 div 10 < 10" by simp
  have b: "?n mod 10 < 10" by simp
  have "readHundredths (toFixed2 p q)
          = Some (100 * (?n div 100) + 10 * (?n mod 100 div 10) + ?n mod 10)"
    unfolding toFixed2_def Let_def by (rule readHundredths_render [OF a b])
  then show ?thesis by (simp only: hundredths_parts)
qed

text \<open>
  C9, as the code has it: when the database works and the sizes add up to less than
  \<open>2^53\<close>, \<open>getStats\<close> resolves to an object with the properties \<open>entries\<close>,
  \<open>totalSizeKB\<close> and \<open>oldestEntryAge\<close>. \<open>entries\<close> is the number of records.
  \<open>totalSizeKB\<close> is a string that reads as a decimal numeral with two decimals, of a value
  \<open>n / 100\<close> that differs from the sum of the sizes divided by \<open>1024\<close> by at most \<open>1 / 200\<close>
  (here multiplied by \<open>102400\<close>). \<open>oldestEntryAge\<close> is the number of whole days from the
  smallest of the time stamps and the time at the start of the scan to the time at its
  end; that smallest value is the smallest time stamp when the store has a record and no
  time stamp is later than the start of the scan.
\<close>

theorem getStats_accuracy:
  "sum_list (map size' s) < 2 ^ 53 \<longrightarrow>
   (\<exists>st str n.
      getStats now0 now1 Healthy (Db s) = Resolved st
      \<and> statsObject st =
          [(''entries'', JsNumber (int (length s))),
           (''totalSizeKB'', JsString str),
           (''oldestEntryAge'',
            JsNumber ((now1 - Min (insert now0 (timestamp ` set s))) div (1000 * 60 * 60 * 24)))]
      \<and> readHundredths str = Some n
      \<and> \<bar>1024 * int n - 100 * int (sum_list (map size' s))\<bar> \<le> 512
      \<and> (s \<noteq> [] \<and> list_all (\<lambda>r. timestamp r \<le> now0) s \<longrightarrow>
            Min (insert now0 (timestamp ` set s)) = Min (timestamp ` set s)))"
proof -
  let ?z = "sum_list (map size' s)"
  let ?n = "(200 * ?z + 1024) div (2 * 1024)"
  let ?st = "\<lparr>entries = length s, totalSizeKB = JsString (toFixed2 ?z 1024),
              oldestEntryAge =
                (now1 - Min (insert now0 (timestamp ` set s))) div (1000 * 60 * 60 * 24)\<rparr>"
  have run: "getStats now0 now1 Healthy (Db s) = Resolved ?st"
    by (simp add: getStats_def statsCursor_acc)
  have obj: "statsObject ?st =
          [(''entries'', JsNumber (int (length s))),
           (''totalSizeKB'', JsString (toFixed2 ?z 1024)),
           (''oldestEntryAge'',
            JsNumber ((now1 - Min (insert now0 (timestamp ` set s))) div (1000 * 60 * 60 * 24)))]"
    by (simp add: statsObject_def)
  have rd: "readHundredths (toFixed2 ?z 1024) = Some ?n"
    by (rule readHundredths_toFixed2)
  have tol: "\<bar>1024 * int ?n - 100 * int ?z\<bar> \<le> 512"
    by (rule fixed2_tolerance)
  have oldest: "Min (insert now0 (timestamp ` set s)) = Min (timestamp ` set s)"
    if ne: "s \<noteq> []" and past: "list_all (\<lambda>r. timestamp r \<le> now0) s"
  proof -
    obtain e where e: "e \<in> set s" using ne by (cases s) auto
    then have "timestamp e \<le> now0" using past by (simp add: list_all_iff)
    moreover have "Min (timestamp ` set s) \<le> timestamp e" using e by simp
    ultimately have le: "Min (timestamp ` set s) \<le> now0" by linarith
    have "Min (insert now0 (timestamp ` set s)) = min now0 (Min (timestamp ` set s))"
      using ne by (intro Min_insert) simp_all
    then show ?thesis using le by (simp only: min_absorb2)
  qed
  show ?thesis using run obj rd tol oldest by blast
qed

theorem getStats_accuracy_witness:
  "sum_list (map size' sizedStore) = 13845 \<and> (13845::nat) < 2 ^ 53
   \<and> sizedStore \<noteq> [] \<and> list_all (\<lambda>r. timestamp r \<le> 259200020) sizedStore
   \<and> getStats 259200020 259200025 Healthy (Db sizedStore)
       = Resolved \<lparr>entries = 2, totalSizeKB = JsString (js ''13.52''), oldestEntryAge = 3\<rparr>
   \<and> statsObject \<lparr>entries = 2, totalSizeKB = JsString (js ''13.52''), oldestEntryAge = 3\<rparr>
       = [(''entries'', JsNumber 2), (''totalSizeKB'', JsString (js ''13.52'')),
          (''oldestEntryAge'', JsNumber 3)]
   \<and> readHundredths (js ''13.52'') = Some 1352
   \<and> \<bar>1024 * int 1352 - 100 * int 13845\<bar> \<le> 512
   \<and> Min (insert 259200020 (timestamp ` set sizedStore)) = Min (timestamp ` set sizedStore)"
proof -
  have sizes: "sum_list (map size' sizedStore) = 13845"
    by (simp add: sizedStore_def sampleRecord_def)
  have small: "sum_list (map size' sizedStore) < 2 ^ 53"
    by (simp add: sizes)
  have ne: "sizedStore \<noteq> []" by (simp add: sizedStore_def)
  have past: "list_all (\<lambda>r. timestamp r \<le> 259200020) sizedStore"
    by (simp add: sizedStore_def sampleRecord_def)
  have run: "getStats 259200020 259200025 Healthy (Db sizedStore)
       = Resolved \<lparr>entries = 2, totalSizeKB = JsString (js ''13.52''), oldestEntryAge = 3\<rparr>"
    by (simp add: getStats_def sizedStore_def sampleRecord_def toFixed2_def digits.simps
        digitChar_def js_def)
  have obj: "statsObject \<lparr>entries = 2, totalSizeKB = JsString (js ''13.52''), oldestEntryAge = 3\<rparr>
       = [(''entries'', JsNumber 2), (''totalSizeKB'', JsString (js ''13.52'')),
          (''oldestEntryAge'', JsNumber 3)]"
    by (simp add: statsObject_def)
  have rd: "readHundredths (js ''13.52'') = Some 1352"
    by (simp add: readHundredths_def readDecimal_def digitValue_def js_def)
  have tol: "\<bar>1024 * int 1352 - 100 * int 13845\<bar> \<le> 512" by simp
  have "Min (insert 259200020 (timestamp ` set sizedStore)) = Min (timestamp ` set sizedStore)"
    using getStats_accuracy [where s = sizedStore and ?now0.0 = 259200020
                               and ?now1.0 = 259200025]
      small ne past
    by blast
  then show ?thesis using sizes ne past run obj rd tol by simp
qed

text \<open>
  C9, as the specification has it, fails on the store \<open>sizedStore\<close>: the object has the
  properties \<open>entries\<close>, \<open>totalSizeKB\<close> and \<open>oldestEntryAge\<close> and none named \<open>entryCount\<close> or
  \<open>oldestEntryAgeInDays\<close>.
\<close>

theorem getStats_field_names:
  "getStats 259200020 259200025 Healthy (Db sizedStore)
     = Resolved \<lparr>entries = 2, totalSizeKB = JsString (js ''13.52''), oldestEntryAge = 3\<rparr>
   \<and> map fst (statsObject \<lparr>entries = 2, totalSizeKB = JsString (js ''13.52''),
                              oldestEntryAge = 3\<rparr>)
     = [''entries'', ''totalSizeKB'', ''oldestEntryAge'']
   \<and> map_of (statsObject \<lparr>entries = 2, totalSizeKB = JsString (js ''13.52''),
                              oldestEntryAge = 3\<rparr>) ''entryCount'' = None
   \<and> map_of (statsObject \<lparr>entries = 2, totalSizeKB = JsString (js ''13.52''),
                              oldestEntryAge = 3\<rparr>) ''oldestEntryAgeInDays'' = None"
proof -
  have "getStats 259200020 259200025 Healthy (Db sizedStore)
       = Resolved \<lparr>entries = 2, totalSizeKB = JsString (js ''13.52''), oldestEntryAge = 3\<rparr>"
    by (simp add: getStats_def sizedStore_def sampleRecord_def toFixed2_def digits.simps
        digitChar_def js_def)
  then show ?thesis by (simp add: statsObject_def)
qed

text \<open>
  C10: on the empty store, when the database works and the clock at the end of the scan
  is not before the clock at its start and less than a day after it, \<open>getStats\<close> resolves
  to \<open>entries = 0\<close>, \<open>totalSizeKB\<close> the string \<open>0.00\<close> and \<open>oldestEntryAge = 0\<close>. When the
  request of the cursor fails, or when the database could not be opened, it resolves to
  zeros, and \<open>totalSizeKB\<close> is then the number \<open>0\<close>.
\<close>

theorem getStats_empty_store:
  "(now0 \<le> now1 \<and> now1 < now0 + 1000 * 60 * 60 * 24 \<longrightarrow>
      getStats now0 now1 Healthy (Db []) =
        Resolved \<lparr>entries = 0, totalSizeKB = JsString (js ''0.00''), oldestEntryAge = 0\<rparr>)
   \<and> getStats now0 now1 (RequestFails error) (Db s) =
        Resolved \<lparr>entries = 0, totalSizeKB = JsNumber 0, oldestEntryAge = 0\<rparr>
   \<and> getStats now0 now1 b (InitRejected error) =
        Resolved \<lparr>entries = 0, totalSizeKB = JsNumber 0, oldestEntryAge = 0\<rparr>"
  by (simp add: getStats_def toFixed2_def digits.simps digitChar_def js_def)

theorem getStats_empty_store_witness:
  "(20::int) \<le> 25 \<and> (25::int) < 20 + 1000 * 60 * 60 * 24
   \<and> getStats 20 25 Healthy (Db []) =
        Resolved \<lparr>entries = 0, totalSizeKB = JsString (js ''0.00''), oldestEntryAge = 0\<rparr>
   \<and> getStats 20 25 (RequestFails (DOMException ''UnknownError'')) (Db sampleStore) =
        Resolved \<lparr>entries = 0, totalSizeKB = JsNumber 0, oldestEntryAge = 0\<rparr>"
  using getStats_empty_store [where ?now0.0 = 20 and ?now1.0 = 25
          and error = "DOMException ''UnknownError''" and s = sampleStore]
  by simp


end
